theory Spec2Isabelle
  imports Main "HOL-Library.Word"
begin

unbundle bit_operations_syntax

section \<open>Interrupt management for IA-32 (intconnect.c)\<close>

text \<open>
  A shallow embedding of \<^verbatim>\<open>intconnect.c\<close>: the vector allocation bitset
  \<^verbatim>\<open>_VectorsAllocated[]\<close> with \<^verbatim>\<open>_IntVecAlloc\<close>,
  \<^verbatim>\<open>_IntVecMarkAllocated\<close> and \<^verbatim>\<open>_IntVecMarkFree\<close>, the descriptor
  installer \<^verbatim>\<open>_IntVecSet\<close>, and the stub synthesizer \<^verbatim>\<open>irq_connect\<close>.
  C identifiers that start with an underscore lose it, since an Isabelle name cannot
  start with one.

  \<^verbatim>\<open>unsigned int\<close>, \<^verbatim>\<open>int\<close> and pointers are 32-bit words (IA-32);
  \<^verbatim>\<open>unsigned char\<close> is an 8-bit word. The \<^verbatim>\<open>int\<close> value -1 is the word
  \<open>- 1\<close>.
\<close>

type_synonym u8 = "8 word"
type_synonym u32 = "32 word"

subsection \<open>Build configuration and link-time symbols\<close>

text \<open>
  The preprocessor symbols that select code (\<^verbatim>\<open>DEBUG\<close>,
  \<^verbatim>\<open>CONFIG_BOI_HANDLER_SUPPORTED\<close>, \<^verbatim>\<open>CONFIG_EOI_HANDLER_SUPPORTED\<close>), the
  constant \<^verbatim>\<open>CONFIG_IDT_NUM_VECTORS\<close>, and the addresses of the external
  symbols \<^verbatim>\<open>_IntEnt\<close>, \<^verbatim>\<open>_IntExit\<close> and \<^verbatim>\<open>_idt_base_address\<close>.
\<close>

record kconfig =
  DEBUG :: bool
  CONFIG_BOI_HANDLER_SUPPORTED :: bool
  CONFIG_EOI_HANDLER_SUPPORTED :: bool
  CONFIG_IDT_NUM_VECTORS :: u32
  IntEnt :: u32
  IntExit :: u32
  idt_base_address :: u32

subsection \<open>Undefined behaviour\<close>

text \<open>
  The C code indexes \<^verbatim>\<open>_VectorsAllocated[]\<close> without a bounds check and shifts
  by a computed amount. An index outside the array and a shift by 32 or more are
  undefined in C; the model returns them as faults.
\<close>

datatype fault = OutOfBounds | ShiftTooWide

subsection \<open>Bit scan primitives\<close>

text \<open>
  Modelled from the spec: \<^verbatim>\<open>find_first_set\<close> and \<^verbatim>\<open>find_last_set\<close> are
  architecture primitives that are not part of the sources. The comment in
  \<^verbatim>\<open>_IntVecAlloc\<close> says that they return a bit position from 1 to 32, or 0 if the
  argument is zero; the spec says that the first scans from the least significant bit
  upward and the second from the most significant bit downward.
\<close>

definition find_first_set :: "u32 \<Rightarrow> u32" where
  "find_first_set w =
     (case List.find (bit w) [0..<32] of None \<Rightarrow> 0 | Some i \<Rightarrow> of_nat (Suc i))"

definition find_last_set :: "u32 \<Rightarrow> u32" where
  "find_last_set w =
     (case List.find (bit w) (rev [0..<32]) of None \<Rightarrow> 0 | Some i \<Rightarrow> of_nat (Suc i))"

subsection \<open>The allocation bitset\<close>

text \<open>
  \<^verbatim>\<open>#define VEC_ALLOC_NUM_INTS ((CONFIG_IDT_NUM_VECTORS + 31) & ~31) / 32\<close> and the
  initialiser of \<^verbatim>\<open>_VectorsAllocated[]\<close>: every word \<^verbatim>\<open>0xffffffff\<close>.
\<close>

definition VEC_ALLOC_NUM_INTS :: "kconfig \<Rightarrow> nat" where
  "VEC_ALLOC_NUM_INTS cfg = unat (((CONFIG_IDT_NUM_VECTORS cfg + 31) AND NOT 31) div 32)"

definition VectorsAllocated_init :: "kconfig \<Rightarrow> u32 list" where
  "VectorsAllocated_init cfg = replicate (VEC_ALLOC_NUM_INTS cfg) 0xffffffff"

text \<open>
  \<^verbatim>\<open>_IntVecAlloc\<close>. \<^verbatim>\<open>irq_lock\<close> and \<^verbatim>\<open>irq_unlock\<close> have no effect in a
  sequential model. The result is the returned \<^verbatim>\<open>int\<close> and the new contents of
  \<^verbatim>\<open>_VectorsAllocated[]\<close>. The statement \<^verbatim>\<open>--fsb\<close> wraps around on 0, as
  \<^verbatim>\<open>unsigned int\<close> does. For a shift count below 32 the value of
  \<^verbatim>\<open>~(1 << fsb)\<close> is the 32-bit pattern with only that bit clear, also for count 31,
  as the IA-32 compilers give.
\<close>

definition IntVecAlloc :: "kconfig \<Rightarrow> u32 \<Rightarrow> u32 list \<Rightarrow> fault + (u32 \<times> u32 list)" where
  "IntVecAlloc cfg priority VA =
     (if DEBUG cfg \<and> push_bit 4 priority + 15 > CONFIG_IDT_NUM_VECTORS cfg
      then Inr (- 1, VA)
      else
        let entryToScan = drop_bit 1 priority in
        if \<not> unat entryToScan < length VA then Inl OutOfBounds
        else
          let fsb = (if priority mod 2 = 0
                     then find_first_set (VA ! unat entryToScan)
                     else find_last_set (VA ! unat entryToScan)) in
          if DEBUG cfg \<and>
             (if priority mod 2 = 0 then fsb = 0 \<or> fsb > 16 else fsb = 0 \<or> fsb < 17)
          then Inr (- 1, VA)
          else
            let fsb = fsb - 1 in
            if \<not> unat fsb < 32 then Inl ShiftTooWide
            else
              Inr (push_bit 5 entryToScan + fsb,
                   VA[unat entryToScan :=
                        VA ! unat entryToScan AND NOT (push_bit (unat fsb) 1)]))"

text \<open>\<^verbatim>\<open>_IntVecMarkAllocated\<close> and \<^verbatim>\<open>_IntVecMarkFree\<close>.\<close>

definition IntVecMarkAllocated :: "u32 \<Rightarrow> u32 list \<Rightarrow> fault + u32 list" where
  "IntVecMarkAllocated vector VA =
     (let entryToSet = vector div 32;
          bitToSet = vector mod 32
      in if \<not> unat entryToSet < length VA then Inl OutOfBounds
         else Inr (VA[unat entryToSet :=
                        VA ! unat entryToSet AND NOT (push_bit (unat bitToSet) 1)]))"

definition IntVecMarkFree :: "u32 \<Rightarrow> u32 list \<Rightarrow> fault + u32 list" where
  "IntVecMarkFree vector VA =
     (let entryToSet = vector div 32;
          bitToSet = vector mod 32
      in if \<not> unat entryToSet < length VA then Inl OutOfBounds
         else Inr (VA[unat entryToSet :=
                        VA ! unat entryToSet OR push_bit (unat bitToSet) 1]))"

subsection \<open>Sequences of allocator calls\<close>

text \<open>
  The bit positions of the word that belong to a priority: 0 to 15 for an even priority,
  16 to 31 for the odd priority above it (\<^verbatim>\<open>priority = vector / 16\<close>).
\<close>

definition half_bits :: "u32 \<Rightarrow> nat list" where
  "half_bits p = (if p mod 2 = 0 then [0..<16] else [16..<32])"

text \<open>
  The free vectors of a priority, lowest first: the set bits of its half of word
  \<^verbatim>\<open>priority >> 1\<close>, each as the vector \<^verbatim>\<open>(entry << 5) + bit\<close>.
\<close>

definition free_vectors :: "u32 \<Rightarrow> u32 list \<Rightarrow> u32 list" where
  "free_vectors p VA =
     map (\<lambda>j. push_bit 5 (drop_bit 1 p) + of_nat j)
       (filter (bit (VA ! unat (drop_bit 1 p))) (half_bits p))"

text \<open>\<open>n\<close> consecutive calls of \<^verbatim>\<open>_IntVecAlloc\<close> with the same priority: the
  returned values in the order of the calls, and the final bitset.\<close>

fun alloc_seq :: "kconfig \<Rightarrow> u32 \<Rightarrow> nat \<Rightarrow> u32 list \<Rightarrow> fault + (u32 list \<times> u32 list)" where
  "alloc_seq cfg p 0 VA = Inr ([], VA)"
| "alloc_seq cfg p (Suc n) VA =
     (case IntVecAlloc cfg p VA of
        Inl f \<Rightarrow> Inl f
      | Inr (v, VA') \<Rightarrow>
          (case alloc_seq cfg p n VA' of
             Inl f \<Rightarrow> Inl f
           | Inr (vs, VA'') \<Rightarrow> Inr (v # vs, VA'')))"

text \<open>A call of one of the three operations on the bitset, and a sequence of calls.\<close>

datatype vec_op = Alloc u32 | MarkAllocated u32 | MarkFree u32

fun apply_op :: "kconfig \<Rightarrow> vec_op \<Rightarrow> u32 list \<Rightarrow> fault + u32 list" where
  "apply_op cfg (Alloc p) VA =
     (case IntVecAlloc cfg p VA of Inl f \<Rightarrow> Inl f | Inr (v, VA') \<Rightarrow> Inr VA')"
| "apply_op cfg (MarkAllocated v) VA = IntVecMarkAllocated v VA"
| "apply_op cfg (MarkFree v) VA = IntVecMarkFree v VA"

fun run_ops :: "kconfig \<Rightarrow> vec_op list \<Rightarrow> u32 list \<Rightarrow> fault + u32 list" where
  "run_ops cfg [] VA = Inr VA"
| "run_ops cfg (x # xs) VA =
     (case apply_op cfg x VA of Inl f \<Rightarrow> Inl f | Inr VA' \<Rightarrow> run_ops cfg xs VA')"

text \<open>
  The priority a call is addressed to: the argument of \<^verbatim>\<open>_IntVecAlloc\<close>, and
  \<^verbatim>\<open>vector / 16\<close> for the two mark operations.
\<close>

fun op_priority :: "vec_op \<Rightarrow> u32" where
  "op_priority (Alloc p) = p"
| "op_priority (MarkAllocated v) = v div 16"
| "op_priority (MarkFree v) = v div 16"

text \<open>
  Whether every \<^verbatim>\<open>_IntVecAlloc\<close> call of a sequence runs in a debug build or
  at a moment when the half of its priority still has a free vector.
\<close>

fun alloc_guarded :: "kconfig \<Rightarrow> vec_op list \<Rightarrow> u32 list \<Rightarrow> bool" where
  "alloc_guarded cfg [] VA = True"
| "alloc_guarded cfg (x # xs) VA =
     ((case x of
         Alloc p \<Rightarrow>
           DEBUG cfg \<or> (\<exists>j \<in> set (half_bits p). bit (VA ! unat (drop_bit 1 p)) j)
       | _ \<Rightarrow> True) \<and>
      (case apply_op cfg x VA of Inl f \<Rightarrow> True | Inr VA' \<Rightarrow> alloc_guarded cfg xs VA'))"

text \<open>
  Two bitsets of the same length agree on every bit outside the half of priority \<open>p\<close>:
  on the other half of word \<^verbatim>\<open>p >> 1\<close> and on every other word.
\<close>

definition untouched :: "u32 \<Rightarrow> u32 list \<Rightarrow> u32 list \<Rightarrow> bool" where
  "untouched p VA VA' \<longleftrightarrow>
     length VA' = length VA \<and>
     (\<forall>i<length VA. \<forall>j<32.
        \<not> (i = unat (drop_bit 1 p) \<and> j \<in> set (half_bits p)) \<longrightarrow>
        bit (VA' ! i) j = bit (VA ! i) j)"

subsection \<open>Memory, the descriptor table and the kernel state\<close>

text \<open>
  Memory is a store from 32-bit addresses to bytes; the stub buffer
  \<^verbatim>\<open>pIntStubMem\<close> is an address into it, and \<^verbatim>\<open>STUB_PTR[i] = b\<close> stores
  \<open>b\<close> at address \<open>pIntStubMem + i\<close>.
\<close>

type_synonym memory = "u32 \<Rightarrow> u8"

text \<open>
  Modelled from the spec: \<^verbatim>\<open>UNALIGNED_WRITE\<close> is a macro of a header that is not
  part of the sources. The spec asks for writes of multi-byte fields that assume no
  alignment; on IA-32 the four bytes of the value are stored least significant first.
\<close>

definition UNALIGNED_WRITE :: "u32 \<Rightarrow> u32 \<Rightarrow> memory \<Rightarrow> memory" where
  "UNALIGNED_WRITE p v m =
     m(p := ucast v,
       p + 1 := ucast (drop_bit 8 v),
       p + 2 := ucast (drop_bit 16 v),
       p + 3 := ucast (drop_bit 24 v))"

text \<open>Reading four bytes back as a 32-bit value, least significant first.\<close>

definition read32 :: "memory \<Rightarrow> u32 \<Rightarrow> u32" where
  "read32 m p =
     ucast (m p) OR push_bit 8 (ucast (m (p + 1))) OR
     push_bit 16 (ucast (m (p + 2))) OR push_bit 24 (ucast (m (p + 3)))"

text \<open>
  Modelled from the spec: the opcode constants are defined in a header that is not part
  of the sources. The header comment of \<^verbatim>\<open>intconnect.c\<close> lists the machine code
  of the full stub: \<^verbatim>\<open>0xe8\<close> for call, \<^verbatim>\<open>0x68\<close> for pushl, \<^verbatim>\<open>0x83, 0xc4\<close>
  for addl to \<^verbatim>\<open>%esp\<close> and \<^verbatim>\<open>0xe9\<close> for jmp. The source stores
  \<^verbatim>\<open>IA32_ADD_OPCODE & 0xFF\<close> first and \<^verbatim>\<open>IA32_ADD_OPCODE >> 8\<close> second.
\<close>

definition IA32_CALL_OPCODE :: u8 where "IA32_CALL_OPCODE = 0xe8"
definition IA32_PUSH_OPCODE :: u8 where "IA32_PUSH_OPCODE = 0x68"
definition IA32_JMP_OPCODE :: u8 where "IA32_JMP_OPCODE = 0xe9"
definition IA32_ADD_OPCODE :: u32 where "IA32_ADD_OPCODE = 0xc483"

text \<open>
  Modelled from the spec: \<^verbatim>\<open>_IdtEntCreate\<close> is not part of the sources. The spec
  says that the installer overwrites the table entry with a gate descriptor that encodes
  the routine as the handler entry point and the privilege level as the descriptor
  privilege level. The model keeps the descriptors by the address of their entry.
\<close>

record gate =
  gate_handler :: u32
  gate_dpl :: u32

record kstate =
  mem :: memory
  idt :: "u32 \<rightharpoonup> gate"
  VectorsAllocated :: "u32 list"

definition IdtEntCreate :: "u32 \<Rightarrow> u32 \<Rightarrow> u32 \<Rightarrow> kstate \<Rightarrow> kstate" where
  "IdtEntCreate pIdtEntry routine dpl s =
     s\<lparr>idt := (idt s)(pIdtEntry \<mapsto> \<lparr>gate_handler = routine, gate_dpl = dpl\<rparr>)\<rparr>"

text \<open>\<^verbatim>\<open>_IntVecSet\<close>: the entry is at \<^verbatim>\<open>_idt_base_address + (vector << 3)\<close>.\<close>

definition IntVecSet :: "kconfig \<Rightarrow> u32 \<Rightarrow> u32 \<Rightarrow> u32 \<Rightarrow> kstate \<Rightarrow> kstate" where
  "IntVecSet cfg vector routine dpl s =
     (let pIdtEntry = idt_base_address cfg + push_bit 3 vector
      in IdtEntCreate pIdtEntry routine dpl s)"

subsection \<open>The board support routine\<close>

text \<open>
  \<^verbatim>\<open>_SysIntVecAlloc\<close> belongs to the board support package. It returns the vector
  and, through its pointer arguments, the BOI and EOI routines, their parameters and
  whether each takes a parameter; it may change the kernel state. \<^verbatim>\<open>irq_connect\<close>
  takes it as an argument.
\<close>

record sysalloc =
  vector :: u32
  boiRtn :: u32
  eoiRtn :: u32
  boiRtnParm :: u32
  eoiRtnParm :: u32
  boiParamRequired :: u8
  eoiParamRequired :: u8

type_synonym SysIntVecAlloc_fn = "u32 \<Rightarrow> u32 \<Rightarrow> kstate \<Rightarrow> sysalloc \<times> kstate"

subsection \<open>Stub synthesis\<close>

text \<open>
  The state of the synthesis: \<^verbatim>\<open>offsetAdjust\<close>, \<^verbatim>\<open>numParameters\<close> (both
  \<^verbatim>\<open>unsigned char\<close>) and the memory. An index such as
  \<^verbatim>\<open>6 + offsetAdjust\<close> is computed in \<^verbatim>\<open>int\<close>, so \<open>unat\<close> is taken
  before the addition.
\<close>

type_synonym synth = "u8 \<times> u8 \<times> memory"

definition STUB :: "u32 \<Rightarrow> nat \<Rightarrow> u32" where
  "STUB pIntStubMem i = pIntStubMem + of_nat i"

text \<open>Lines 306-310: the call of \<^verbatim>\<open>_IntEnt\<close>.\<close>

definition emit_entry :: "kconfig \<Rightarrow> u32 \<Rightarrow> memory \<Rightarrow> synth" where
  "emit_entry cfg pIntStubMem m =
     (let m = m(STUB pIntStubMem 0 := IA32_CALL_OPCODE);
          m = UNALIGNED_WRITE (STUB pIntStubMem 1) (IntEnt cfg - STUB pIntStubMem 5) m
      in (5, 1, m))"

text \<open>Lines 312-341: the BOI block, under \<^verbatim>\<open>CONFIG_BOI_HANDLER_SUPPORTED\<close>.\<close>

definition emit_boi :: "kconfig \<Rightarrow> sysalloc \<Rightarrow> u32 \<Rightarrow> synth \<Rightarrow> synth" where
  "emit_boi cfg r pIntStubMem st =
     (case st of (offsetAdjust, numParameters, m) \<Rightarrow>
      if \<not> CONFIG_BOI_HANDLER_SUPPORTED cfg then st
      else if boiRtn r = 0 then st
      else if boiParamRequired r \<noteq> 0 then
        let m = m(STUB pIntStubMem (unat offsetAdjust) := IA32_PUSH_OPCODE);
            m = UNALIGNED_WRITE (STUB pIntStubMem (1 + unat offsetAdjust)) (boiRtnParm r) m;
            m = m(STUB pIntStubMem (5 + unat offsetAdjust) := IA32_CALL_OPCODE);
            m = UNALIGNED_WRITE (STUB pIntStubMem (6 + unat offsetAdjust))
                  (boiRtn r - STUB pIntStubMem (10 + unat offsetAdjust)) m
        in (offsetAdjust + 10, numParameters + 1, m)
      else
        let m = m(STUB pIntStubMem (unat offsetAdjust) := IA32_CALL_OPCODE);
            m = UNALIGNED_WRITE (STUB pIntStubMem (1 + unat offsetAdjust))
                  (boiRtn r - STUB pIntStubMem (5 + unat offsetAdjust)) m
        in (offsetAdjust + 5, numParameters, m))"

text \<open>Lines 345-354: the push of the ISR parameter and the call of the ISR.\<close>

definition emit_isr :: "u32 \<Rightarrow> u32 \<Rightarrow> u32 \<Rightarrow> synth \<Rightarrow> synth" where
  "emit_isr routine parameter pIntStubMem st =
     (case st of (offsetAdjust, numParameters, m) \<Rightarrow>
        let m = m(STUB pIntStubMem (unat offsetAdjust) := IA32_PUSH_OPCODE);
            m = UNALIGNED_WRITE (STUB pIntStubMem (1 + unat offsetAdjust)) parameter m;
            m = m(STUB pIntStubMem (5 + unat offsetAdjust) := IA32_CALL_OPCODE);
            m = UNALIGNED_WRITE (STUB pIntStubMem (6 + unat offsetAdjust))
                  (routine - STUB pIntStubMem (10 + unat offsetAdjust)) m
        in (offsetAdjust + 10, numParameters, m))"

text \<open>Lines 356-385: the EOI block, under \<^verbatim>\<open>CONFIG_EOI_HANDLER_SUPPORTED\<close>.\<close>

definition emit_eoi :: "kconfig \<Rightarrow> sysalloc \<Rightarrow> u32 \<Rightarrow> synth \<Rightarrow> synth" where
  "emit_eoi cfg r pIntStubMem st =
     (case st of (offsetAdjust, numParameters, m) \<Rightarrow>
      if \<not> CONFIG_EOI_HANDLER_SUPPORTED cfg then st
      else if eoiRtn r = 0 then st
      else if eoiParamRequired r \<noteq> 0 then
        let m = m(STUB pIntStubMem (unat offsetAdjust) := IA32_PUSH_OPCODE);
            m = UNALIGNED_WRITE (STUB pIntStubMem (1 + unat offsetAdjust)) (eoiRtnParm r) m;
            m = m(STUB pIntStubMem (5 + unat offsetAdjust) := IA32_CALL_OPCODE);
            m = UNALIGNED_WRITE (STUB pIntStubMem (6 + unat offsetAdjust))
                  (eoiRtn r - STUB pIntStubMem (10 + unat offsetAdjust)) m
        in (offsetAdjust + 10, numParameters + 1, m)
      else
        let m = m(STUB pIntStubMem (unat offsetAdjust) := IA32_CALL_OPCODE);
            m = UNALIGNED_WRITE (STUB pIntStubMem (1 + unat offsetAdjust))
                  (eoiRtn r - STUB pIntStubMem (5 + unat offsetAdjust)) m
        in (offsetAdjust + 5, numParameters, m))"

text \<open>
  Lines 395-399: the stack cleanup, a byte at a time. The immediate is
  \<^verbatim>\<open>(unsigned char)(4 * numParameters)\<close>, computed in \<^verbatim>\<open>int\<close> and truncated.
\<close>

definition emit_cleanup :: "u32 \<Rightarrow> synth \<Rightarrow> synth" where
  "emit_cleanup pIntStubMem st =
     (case st of (offsetAdjust, numParameters, m) \<Rightarrow>
        let m = m(STUB pIntStubMem (unat offsetAdjust) := ucast (IA32_ADD_OPCODE AND 0xFF));
            m = m(STUB pIntStubMem (1 + unat offsetAdjust) := ucast (drop_bit 8 IA32_ADD_OPCODE));
            m = m(STUB pIntStubMem (2 + unat offsetAdjust) := of_nat (4 * unat numParameters))
        in (offsetAdjust + 3, numParameters, m))"

text \<open>Lines 407-410: the jump to \<^verbatim>\<open>_IntExit\<close>.\<close>

definition emit_exit :: "kconfig \<Rightarrow> u32 \<Rightarrow> synth \<Rightarrow> synth" where
  "emit_exit cfg pIntStubMem st =
     (case st of (offsetAdjust, numParameters, m) \<Rightarrow>
        let m = m(STUB pIntStubMem (unat offsetAdjust) := IA32_JMP_OPCODE);
            m = UNALIGNED_WRITE (STUB pIntStubMem (1 + unat offsetAdjust))
                  (IntExit cfg - STUB pIntStubMem (5 + unat offsetAdjust)) m
        in (offsetAdjust, numParameters, m))"

text \<open>The whole synthesis, lines 306-410, in the order of the source.\<close>

definition synthesize :: "kconfig \<Rightarrow> sysalloc \<Rightarrow> u32 \<Rightarrow> u32 \<Rightarrow> u32 \<Rightarrow> memory \<Rightarrow> synth" where
  "synthesize cfg r routine parameter pIntStubMem m =
     emit_exit cfg pIntStubMem
       (emit_cleanup pIntStubMem
         (emit_eoi cfg r pIntStubMem
           (emit_isr routine parameter pIntStubMem
             (emit_boi cfg r pIntStubMem
               (emit_entry cfg pIntStubMem m)))))"

subsection \<open>Layout of the synthesized stub\<close>

text \<open>
  The bytes of a 32-bit value in the order in which \<^verbatim>\<open>UNALIGNED_WRITE\<close> stores
  them, and the memory after the bytes of a list have been stored at consecutive
  addresses.
\<close>

definition le32 :: "u32 \<Rightarrow> u8 list" where
  "le32 v = [ucast v, ucast (drop_bit 8 v), ucast (drop_bit 16 v), ucast (drop_bit 24 v)]"

fun write_bytes :: "u32 \<Rightarrow> u8 list \<Rightarrow> memory \<Rightarrow> memory" where
  "write_bytes a [] m = m"
| "write_bytes a (b # bs) m = write_bytes (a + 1) bs (m(a := b))"

text \<open>
  The size of the BOI and of the EOI block of a stub, after the header comment of the
  source: 10 bytes for a push and a call, 5 bytes for a call alone, and nothing when the
  support is not compiled in or the routine pointer is null.
\<close>

definition boi_size :: "kconfig \<Rightarrow> sysalloc \<Rightarrow> nat" where
  "boi_size cfg r =
     (if CONFIG_BOI_HANDLER_SUPPORTED cfg \<and> boiRtn r \<noteq> 0
      then (if boiParamRequired r \<noteq> 0 then 10 else 5) else 0)"

definition eoi_size :: "kconfig \<Rightarrow> sysalloc \<Rightarrow> nat" where
  "eoi_size cfg r =
     (if CONFIG_EOI_HANDLER_SUPPORTED cfg \<and> eoiRtn r \<noteq> 0
      then (if eoiParamRequired r \<noteq> 0 then 10 else 5) else 0)"

text \<open>
  The four bytes at offset \<open>k\<close> of the stub hold the displacement to \<open>target\<close>: the
  target minus the address of the byte after the operand, so that this address plus the
  operand is the target.
\<close>

definition encodes_target :: "memory \<Rightarrow> u32 \<Rightarrow> nat \<Rightarrow> u32 \<Rightarrow> bool" where
  "encodes_target m pIntStubMem k target \<longleftrightarrow>
     read32 m (STUB pIntStubMem k) = target - STUB pIntStubMem (k + 4) \<and>
     STUB pIntStubMem (k + 4) + read32 m (STUB pIntStubMem k) = target"

subsection \<open>The connect operation\<close>

text \<open>
  \<^verbatim>\<open>irq_connect\<close>: the call of \<^verbatim>\<open>_SysIntVecAlloc\<close>, the check of its result
  under \<^verbatim>\<open>DEBUG\<close>, the synthesis of the stub and the call of \<^verbatim>\<open>_IntVecSet\<close>
  with privilege level 0. The result is the returned \<^verbatim>\<open>int\<close> and the new state.
\<close>

definition irq_connect ::
  "kconfig \<Rightarrow> SysIntVecAlloc_fn \<Rightarrow> u32 \<Rightarrow> u32 \<Rightarrow> u32 \<Rightarrow> u32 \<Rightarrow> u32 \<Rightarrow> kstate \<Rightarrow> u32 \<times> kstate" where
  "irq_connect cfg SysIntVecAlloc irq priority routine parameter pIntStubMem s =
     (case SysIntVecAlloc irq priority s of (r, s) \<Rightarrow>
        if DEBUG cfg \<and> vector r = - 1 then (- 1, s)
        else
          case synthesize cfg r routine parameter pIntStubMem (mem s) of
            (offsetAdjust, numParameters, m) \<Rightarrow>
              (vector r, IntVecSet cfg (vector r) pIntStubMem 0 (s\<lparr>mem := m\<rparr>)))"

section \<open>Properties of the vector allocator\<close>

subsection \<open>Bit scans and single bits\<close>

lemma word32_nonzero_bit:
  fixes w :: u32
  assumes "w \<noteq> 0"
  shows "\<exists>i<32. bit w i"
proof (rule ccontr)
  assume "\<not> (\<exists>i<32. bit w i)"
  then have "w = 0" by (intro bit_word_eqI) simp
  with assms show False by simp
qed

lemma find_first_set_0: "find_first_set 0 = 0"
  by (simp add: find_first_set_def find_None_iff[THEN iffD2])

lemma find_last_set_0: "find_last_set 0 = 0"
  by (simp add: find_last_set_def find_None_iff[THEN iffD2])

lemma find_first_set_bit:
  assumes "w \<noteq> 0"
  obtains i where "i < 32" "bit w i" "\<forall>j<i. \<not> bit w j" "find_first_set w = of_nat (Suc i)"
proof -
  from word32_nonzero_bit[OF assms] obtain k where k: "k < 32" "bit w k" by blast
  then have "List.find (bit w) [0..<32] \<noteq> None"
    by (auto simp: find_None_iff)
  then obtain i where f: "List.find (bit w) [0..<32] = Some i" by blast
  then obtain n where n: "n < 32" "bit w ([0..<32] ! n)" "i = [0..<32] ! n"
      "\<forall>j<n. \<not> bit w ([0..<32] ! j)"
    unfolding find_Some_iff by auto
  from n have "i = n" by simp
  with n have "i < 32" "bit w i" "\<forall>j<i. \<not> bit w j" by auto
  moreover from f have "find_first_set w = of_nat (Suc i)" by (simp add: find_first_set_def)
  ultimately show thesis using that by blast
qed

lemma find_last_set_bit:
  assumes "w \<noteq> 0"
  obtains i where "i < 32" "bit w i" "\<forall>j. i < j \<and> j < 32 \<longrightarrow> \<not> bit w j"
    "find_last_set w = of_nat (Suc i)"
proof -
  from word32_nonzero_bit[OF assms] obtain k where k: "k < 32" "bit w k" by blast
  then have "List.find (bit w) (rev [0..<32]) \<noteq> None"
    by (auto simp: find_None_iff)
  then obtain i where f: "List.find (bit w) (rev [0..<32]) = Some i" by blast
  then obtain n where n: "n < 32" "bit w (rev [0..<32] ! n)" "i = rev [0..<32] ! n"
      "\<forall>j<n. \<not> bit w (rev [0..<32] ! j)"
    unfolding find_Some_iff by auto
  from n have i: "i = 31 - n" by (simp add: rev_nth)
  have "\<not> bit w j" if "i < j" "j < 32" for j
  proof -
    from that i n(1) have "31 - j < n" by arith
    with n(4) have "\<not> bit w (rev [0..<32] ! (31 - j))" by blast
    with that show ?thesis by (simp add: rev_nth)
  qed
  moreover from n i have "i < 32" "bit w i" by (auto simp: rev_nth)
  moreover from f have "find_last_set w = of_nat (Suc i)" by (simp add: find_last_set_def)
  ultimately show thesis using that by blast
qed

lemma unat_of_nat32: "n < 2 ^ 32 \<Longrightarrow> unat (of_nat n :: u32) = n"
  by (simp add: unat_of_nat)

lemma unat_pos32: "i < 32 \<Longrightarrow> unat (of_nat (Suc i) :: u32) = Suc i"
  using unat_of_nat32[of "Suc i"] by simp

lemma pos32_less: "i < 32 \<Longrightarrow> (of_nat (Suc i) :: u32) < 17 \<longleftrightarrow> i < 16"
  by (simp add: word_less_nat_alt unat_pos32 del: of_nat_Suc)

lemma pos32_greater: "i < 32 \<Longrightarrow> (of_nat (Suc i) :: u32) > 16 \<longleftrightarrow> 16 \<le> i"
  by (simp add: word_less_nat_alt unat_pos32 del: of_nat_Suc) arith

lemma pos32_nonzero: "i < 32 \<Longrightarrow> (of_nat (Suc i) :: u32) \<noteq> 0"
  using unat_pos32[of i] by (metis Zero_not_Suc unat_0)

lemma pos32_pred: "(of_nat (Suc i) :: u32) - 1 = of_nat i"
  by simp

lemma unat_idx32: "i < 32 \<Longrightarrow> unat (of_nat i :: u32) = i"
  by (simp add: unat_of_nat)

lemma bit_clear32:
  fixes w :: u32
  shows "bit (w AND NOT (2 ^ k)) j \<longleftrightarrow> bit w j \<and> j \<noteq> k"
  by (auto simp: bit_simps dest: bit_imp_le_length)

lemma bit_set32:
  fixes w :: u32
  shows "bit (w OR 2 ^ k) j \<longleftrightarrow> bit w j \<or> (j = k \<and> k < 32)"
  by (auto simp: bit_simps)

lemma even_priority: "(p :: u32) mod 2 = 0 \<longleftrightarrow> even p"
  by (simp add: even_iff_mod_2_eq_zero)

subsection \<open>The result of one allocation\<close>

lemma unat_vector:
  fixes e k :: u32
  assumes "unat e < 2 ^ 27" "unat k < 32"
  shows "unat (push_bit 5 e + k) = unat e * 32 + unat k"
proof -
  have "unat (push_bit 5 e) = unat e * 32"
    using assms(1) by (simp add: push_bit_eq_mult unat_word_ariths)
  moreover have "unat e * 32 + unat k < 2 ^ 32" using assms by simp
  ultimately show ?thesis by (simp add: unat_word_ariths)
qed

lemma IntVecAlloc_Inr_cases:
  assumes res: "IntVecAlloc cfg p VA = Inr (v, VA')"
  obtains (unavailable) "DEBUG cfg" "v = - 1" "VA' = VA"
  | (allocated) fsb where
      "unat (drop_bit 1 p) < length VA"
      "fsb = (if p mod 2 = 0 then find_first_set (VA ! unat (drop_bit 1 p))
              else find_last_set (VA ! unat (drop_bit 1 p)))"
      "\<not> (DEBUG cfg \<and> (if p mod 2 = 0 then fsb = 0 \<or> fsb > 16 else fsb = 0 \<or> fsb < 17))"
      "unat (fsb - 1) < 32"
      "v = push_bit 5 (drop_bit 1 p) + (fsb - 1)"
      "VA' = VA[unat (drop_bit 1 p) :=
                VA ! unat (drop_bit 1 p) AND NOT (push_bit (unat (fsb - 1)) 1)]"
proof -
  define fsb where "fsb = (if p mod 2 = 0 then find_first_set (VA ! unat (drop_bit 1 p))
              else find_last_set (VA ! unat (drop_bit 1 p)))"
  define c1 where "c1 \<longleftrightarrow> DEBUG cfg \<and> push_bit 4 p + 15 > CONFIG_IDT_NUM_VECTORS cfg"
  define c2 where "c2 \<longleftrightarrow> DEBUG cfg \<and> (if p mod 2 = 0 then fsb = 0 \<or> fsb > 16 else fsb = 0 \<or> fsb < 17)"
  have unf: "IntVecAlloc cfg p VA =
     (if c1 then Inr (- 1, VA)
      else if \<not> unat (drop_bit 1 p) < length VA then Inl OutOfBounds
      else if c2 then Inr (- 1, VA)
      else if \<not> unat (fsb - 1) < 32 then Inl ShiftTooWide
      else Inr (push_bit 5 (drop_bit 1 p) + (fsb - 1),
                VA[unat (drop_bit 1 p) :=
                   VA ! unat (drop_bit 1 p) AND NOT (push_bit (unat (fsb - 1)) 1)]))"
    unfolding IntVecAlloc_def Let_def c1_def c2_def fsb_def by (rule refl)
  show thesis
  proof (cases "c1 \<or> (unat (drop_bit 1 p) < length VA \<and> c2)")
    case True
    then have "IntVecAlloc cfg p VA = Inr (- 1, VA)"
      unfolding unf by auto
    moreover from True have "DEBUG cfg"
      unfolding c1_def c2_def by blast
    ultimately show thesis using res unavailable by simp
  next
    case False
    with res have a: "unat (drop_bit 1 p) < length VA" "\<not> c2" "unat (fsb - 1) < 32"
      unfolding unf by (auto split: if_splits)
    with False res have
      "v = push_bit 5 (drop_bit 1 p) + (fsb - 1)"
      "VA' = VA[unat (drop_bit 1 p) :=
                VA ! unat (drop_bit 1 p) AND NOT (push_bit (unat (fsb - 1)) 1)]"
      unfolding unf by (simp_all del: push_bit_of_1)
    with a show thesis using allocated[of fsb] fsb_def c2_def by blast
  qed
qed

lemma half_bits_even: "p mod 2 = 0 \<Longrightarrow> set (half_bits p) = {0..<16}"
  by (simp only: half_bits_def if_P if_True set_upt)

lemma half_bits_odd: "p mod 2 \<noteq> 0 \<Longrightarrow> set (half_bits p) = {16..<32}"
  by (simp only: half_bits_def if_not_P if_False set_upt)

lemma find_first_set_least:
  assumes "k < 32" "bit w k" "\<forall>j<k. \<not> bit w j"
  shows "find_first_set w = of_nat (Suc k)"
proof -
  from assms(2) have "w \<noteq> 0" by auto
  then obtain i where i: "i < 32" "bit w i" "\<forall>j<i. \<not> bit w j"
      "find_first_set w = of_nat (Suc i)"
    by (rule find_first_set_bit)
  from i(2,3) assms(2,3) have "i = k" by (meson linorder_neqE_nat)
  with i(4) show ?thesis by simp
qed

lemma find_last_set_greatest:
  assumes "k < 32" "bit w k" "\<forall>j. k < j \<and> j < 32 \<longrightarrow> \<not> bit w j"
  shows "find_last_set w = of_nat (Suc k)"
proof -
  from assms(2) have "w \<noteq> 0" by auto
  then obtain i where i: "i < 32" "bit w i" "\<forall>j. i < j \<and> j < 32 \<longrightarrow> \<not> bit w j"
      "find_last_set w = of_nat (Suc i)"
    by (rule find_last_set_bit)
  from i(1,2,3) assms have "i = k" by (meson linorder_neqE_nat)
  with i(4) show ?thesis by simp
qed

lemma IntVecAlloc_scan:
  assumes rng: "\<not> (DEBUG cfg \<and> push_bit 4 p + 15 > CONFIG_IDT_NUM_VECTORS cfg)"
    and inb: "unat (drop_bit 1 p) < length VA"
    and k: "k < 32" "bit (VA ! unat (drop_bit 1 p)) k"
    and ext: "if p mod 2 = 0 then \<forall>j<k. \<not> bit (VA ! unat (drop_bit 1 p)) j
              else \<forall>j. k < j \<and> j < 32 \<longrightarrow> \<not> bit (VA ! unat (drop_bit 1 p)) j"
    and dbg: "DEBUG cfg \<longrightarrow> (if p mod 2 = 0 then k < 16 else 16 \<le> k)"
  shows "IntVecAlloc cfg p VA =
           Inr (push_bit 5 (drop_bit 1 p) + of_nat k,
                VA[unat (drop_bit 1 p) := VA ! unat (drop_bit 1 p) AND NOT (2 ^ k)])"
proof -
  define w where "w = VA ! unat (drop_bit 1 p)"
  define fsb where "fsb = (if p mod 2 = 0 then find_first_set w else find_last_set w)"
  have fsb: "fsb = of_nat (Suc k)"
    using k ext unfolding fsb_def w_def[symmetric]
    by (simp add: find_first_set_least find_last_set_greatest del: of_nat_Suc)
  have c2: "\<not> (DEBUG cfg \<and> (if p mod 2 = 0 then fsb = 0 \<or> fsb > 16 else fsb = 0 \<or> fsb < 17))"
    using dbg k(1) unfolding fsb
    by (cases "p mod 2 = 0")
      (auto simp add: pos32_nonzero pos32_less pos32_greater simp del: of_nat_Suc)
  have pred: "fsb - 1 = of_nat k" unfolding fsb by simp
  have u: "unat (fsb - 1) = k" unfolding pred using k(1) by (simp add: unat_idx32)
  have "IntVecAlloc cfg p VA =
     (if DEBUG cfg \<and> push_bit 4 p + 15 > CONFIG_IDT_NUM_VECTORS cfg then Inr (- 1, VA)
      else if \<not> unat (drop_bit 1 p) < length VA then Inl OutOfBounds
      else if DEBUG cfg \<and> (if p mod 2 = 0 then fsb = 0 \<or> fsb > 16 else fsb = 0 \<or> fsb < 17)
        then Inr (- 1, VA)
      else if \<not> unat (fsb - 1) < 32 then Inl ShiftTooWide
      else Inr (push_bit 5 (drop_bit 1 p) + (fsb - 1),
                VA[unat (drop_bit 1 p) := w AND NOT (push_bit (unat (fsb - 1)) 1)]))"
    unfolding IntVecAlloc_def Let_def fsb_def w_def by (rule refl)
  also have "\<dots> = Inr (push_bit 5 (drop_bit 1 p) + (fsb - 1),
                VA[unat (drop_bit 1 p) := w AND NOT (push_bit (unat (fsb - 1)) 1)])"
    using rng inb c2 u k(1) by (simp only: if_False if_True simp_thms)
  finally show ?thesis using k(1) unfolding pred w_def by (simp add: unat_idx32)
qed

subsection \<open>Successful allocation\<close>

text \<open>
  Claim C4. Whenever \<^verbatim>\<open>_IntVecAlloc\<close> succeeds (it returns a value other than -1)
  and the scan of word \<^verbatim>\<open>priority >> 1\<close> (\<^verbatim>\<open>find_first_set\<close> for an even
  priority, \<^verbatim>\<open>find_last_set\<close> for an odd one) found the bit position \<open>fsb\<close> in 1..32,
  the call clears bit \<open>fsb - 1\<close> of that word, changes no other bit of the bitset, and
  returns \<^verbatim>\<open>(entryToScan << 5) + (fsb - 1)\<close>; for an array of at most \<open>2 ^ 27\<close>
  words this is the number \<open>(priority >> 1) * 32 + (fsb - 1)\<close>.
\<close>

theorem IntVecAlloc_clears_found_bit:
  assumes "IntVecAlloc cfg p VA = Inr (v, VA')"
    and "v \<noteq> - 1"
    and "fsb = (if p mod 2 = 0 then find_first_set (VA ! unat (drop_bit 1 p))
                else find_last_set (VA ! unat (drop_bit 1 p)))"
    and "1 \<le> fsb" and "fsb \<le> 32"
  shows "length VA' = length VA \<and>
         (\<forall>i<length VA. \<forall>j<32.
            bit (VA' ! i) j \<longleftrightarrow>
              bit (VA ! i) j \<and> \<not> (i = unat (drop_bit 1 p) \<and> j = unat fsb - 1)) \<and>
         v = push_bit 5 (drop_bit 1 p) + (fsb - 1) \<and>
         (length VA \<le> 2 ^ 27 \<longrightarrow> unat v = unat (drop_bit 1 p) * 32 + (unat fsb - 1))"
  using assms(1)
proof (cases rule: IntVecAlloc_Inr_cases)
  case unavailable
  with assms(2) show ?thesis by simp
next
  case (allocated fsb')
  note allocated = allocated(1,2,4,5,6)
  from allocated(2) assms(3) have eq: "fsb' = fsb" by simp
  from assms(4) have u: "unat (fsb - 1) = unat fsb - 1"
    by (simp add: unat_sub)
  have len: "length VA' = length VA" using allocated(5) by simp
  have bits: "bit (VA' ! i) j \<longleftrightarrow>
      bit (VA ! i) j \<and> \<not> (i = unat (drop_bit 1 p) \<and> j = unat fsb - 1)"
    if "i < length VA" for i j
    using that allocated(1,5) u eq by (auto simp: nth_list_update bit_clear32)
  have v: "v = push_bit 5 (drop_bit 1 p) + (fsb - 1)" using allocated(4) eq by simp
  have "unat v = unat (drop_bit 1 p) * 32 + (unat fsb - 1)" if "length VA \<le> 2 ^ 27"
  proof -
    from that allocated(1) have "unat (drop_bit 1 p) < 2 ^ 27" by simp
    with allocated(3) eq show ?thesis
      unfolding v using unat_vector[of "drop_bit 1 p" "fsb - 1"] u by simp
  qed
  with len bits v show ?thesis by blast
qed

theorem IntVecAlloc_clears_found_bit_witness:
  "IntVecAlloc \<lparr>DEBUG = True, CONFIG_BOI_HANDLER_SUPPORTED = True,
       CONFIG_EOI_HANDLER_SUPPORTED = True, CONFIG_IDT_NUM_VECTORS = 256,
       IntEnt = 0x100000, IntExit = 0x100400, idt_base_address = 0x8000\<rparr>
     2 [0xFFFFFFFF, 0xFFFFFFF0] = Inr (36, [0xFFFFFFFF, 0xFFFFFFE0]) \<and>
   (36 :: u32) \<noteq> - 1 \<and>
   find_first_set ([0xFFFFFFFF, 0xFFFFFFF0] ! unat (drop_bit 1 (2 :: u32))) = 5 \<and>
   \<not> bit ([0xFFFFFFFF, 0xFFFFFFE0 :: u32] ! 1) 4 \<and>
   bit ([0xFFFFFFFF, 0xFFFFFFE0 :: u32] ! 1) 5 =
     bit ([0xFFFFFFFF, 0xFFFFFFF0 :: u32] ! 1) 5 \<and>
   bit ([0xFFFFFFFF, 0xFFFFFFE0 :: u32] ! 0) 4 =
     bit ([0xFFFFFFFF, 0xFFFFFFF0 :: u32] ! 0) 4 \<and>
   unat (36 :: u32) = unat (drop_bit 1 (2 :: u32)) * 32 + (unat (5 :: u32) - 1)"
proof -
  let ?cfg = "\<lparr>DEBUG = True, CONFIG_BOI_HANDLER_SUPPORTED = True,
       CONFIG_EOI_HANDLER_SUPPORTED = True, CONFIG_IDT_NUM_VECTORS = 256,
       IntEnt = 0x100000, IntExit = 0x100400, idt_base_address = 0x8000\<rparr>"
  have h1: "IntVecAlloc ?cfg 2 [0xFFFFFFFF, 0xFFFFFFF0] = Inr (36, [0xFFFFFFFF, 0xFFFFFFE0])"
    by code_simp
  have h2: "(36 :: u32) \<noteq> - 1" by simp
  have f: "find_first_set ([0xFFFFFFFF, 0xFFFFFFF0] ! unat (drop_bit 1 (2 :: u32))) = 5"
    by code_simp
  have h3: "(5 :: u32) = (if (2 :: u32) mod 2 = 0
       then find_first_set ([0xFFFFFFFF, 0xFFFFFFF0] ! unat (drop_bit 1 (2 :: u32)))
       else find_last_set ([0xFFFFFFFF, 0xFFFFFFF0] ! unat (drop_bit 1 (2 :: u32))))"
    unfolding f by simp
  have h4: "(1 :: u32) \<le> 5" and h5: "(5 :: u32) \<le> 32" by simp_all
  note t = IntVecAlloc_clears_found_bit[OF h1 h2 h3 h4 h5]
  from t have bits: "\<forall>i<2. \<forall>j<32.
      bit ([0xFFFFFFFF, 0xFFFFFFE0 :: u32] ! i) j \<longleftrightarrow>
        bit ([0xFFFFFFFF, 0xFFFFFFF0 :: u32] ! i) j \<and> \<not> (i = 1 \<and> j = 4)"
    by simp
  from bits[rule_format, of 1 4] have b1: "\<not> bit ([0xFFFFFFFF, 0xFFFFFFE0 :: u32] ! 1) 4"
    by simp
  from bits[rule_format, of 1 5] have b2: "bit ([0xFFFFFFFF, 0xFFFFFFE0 :: u32] ! 1) 5 =
     bit ([0xFFFFFFFF, 0xFFFFFFF0 :: u32] ! 1) 5"
    by simp
  from bits[rule_format, of 0 4] have b3: "bit ([0xFFFFFFFF, 0xFFFFFFE0 :: u32] ! 0) 4 =
     bit ([0xFFFFFFFF, 0xFFFFFFF0 :: u32] ! 0) 4"
    by simp
  from t have u: "unat (36 :: u32) = unat (drop_bit 1 (2 :: u32)) * 32 + (unat (5 :: u32) - 1)"
    by simp
  from h1 h2 f b1 b2 b3 u show ?thesis by blast
qed

subsection \<open>Exhaustion in a debug build\<close>

text \<open>
  Claim C6. In a debug build, if the 16 bits of the priority's half of word
  \<^verbatim>\<open>priority >> 1\<close> are all zero, \<^verbatim>\<open>_IntVecAlloc\<close> returns -1 and leaves the
  bitset as it was.
\<close>

theorem IntVecAlloc_exhausted:
  assumes "DEBUG cfg"
    and "unat (drop_bit 1 p) < length VA"
    and "\<forall>j \<in> set (half_bits p). \<not> bit (VA ! unat (drop_bit 1 p)) j"
  shows "IntVecAlloc cfg p VA = Inr (- 1, VA)"
proof -
  define w where "w = VA ! unat (drop_bit 1 p)"
  define fsb where "fsb = (if p mod 2 = 0 then find_first_set w else find_last_set w)"
  have "if p mod 2 = 0 then fsb = 0 \<or> fsb > 16 else fsb = 0 \<or> fsb < 17"
  proof (cases "w = 0")
    case True
    then show ?thesis by (simp add: fsb_def find_first_set_0 find_last_set_0)
  next
    case False
    show ?thesis
    proof (cases "p mod 2 = 0")
      case True
      from False obtain i where i: "i < 32" "bit w i" "find_first_set w = of_nat (Suc i)"
        by (rule find_first_set_bit)
      from assms(3) True i(2) have "16 \<le> i"
        unfolding w_def[symmetric] by (auto simp: half_bits_even)
      with i True show ?thesis by (simp add: fsb_def pos32_greater del: of_nat_Suc)
    next
      case odd: False
      from False obtain i where i: "i < 32" "bit w i" "find_last_set w = of_nat (Suc i)"
        by (rule find_last_set_bit)
      from assms(3) odd i(1,2) have "i < 16"
        unfolding w_def[symmetric] by (auto simp: half_bits_odd)
      with i odd show ?thesis by (simp add: fsb_def pos32_less del: of_nat_Suc)
    qed
  qed
  then show ?thesis
    using assms(1,2) unfolding IntVecAlloc_def Let_def fsb_def w_def
    by (simp only: if_True if_False simp_thms split: if_splits)
qed

theorem IntVecAlloc_exhausted_witness:
  "IntVecAlloc \<lparr>DEBUG = True, CONFIG_BOI_HANDLER_SUPPORTED = True,
       CONFIG_EOI_HANDLER_SUPPORTED = True, CONFIG_IDT_NUM_VECTORS = 256,
       IntEnt = 0x100000, IntExit = 0x100400, idt_base_address = 0x8000\<rparr>
     2 [0xFFFFFFFF, 0xFFFF0000] = Inr (- 1, [0xFFFFFFFF, 0xFFFF0000])"
proof -
  have h: "\<forall>j \<in> set (half_bits (2 :: u32)).
      \<not> bit ([0xFFFFFFFF, 0xFFFF0000 :: u32] ! unat (drop_bit 1 (2 :: u32))) j"
    by code_simp
  show ?thesis by (rule IntVecAlloc_exhausted[OF _ _ h]) simp_all
qed

subsection \<open>The mark operations are idempotent\<close>

text \<open>
  Claim C9. For a vector whose word is in the array, \<^verbatim>\<open>_IntVecMarkAllocated\<close>
  called twice gives the state of the first call and leaves the bit of the vector
  cleared; \<^verbatim>\<open>_IntVecMarkFree\<close> called twice gives the state of the first call and
  leaves the bit set.
\<close>

theorem mark_idempotent:
  assumes "unat (v div 32) < length VA"
  shows "(\<exists>VA1. IntVecMarkAllocated v VA = Inr VA1 \<and> IntVecMarkAllocated v VA1 = Inr VA1 \<and>
            \<not> bit (VA1 ! unat (v div 32)) (unat (v mod 32))) \<and>
         (\<exists>VA2. IntVecMarkFree v VA = Inr VA2 \<and> IntVecMarkFree v VA2 = Inr VA2 \<and>
            bit (VA2 ! unat (v div 32)) (unat (v mod 32)))"
proof -
  have lt: "unat (v mod 32) < 32"
    by (simp add: unat_mod_distrib)
  have "(w AND NOT (2 ^ k)) AND NOT (2 ^ k) = w AND NOT (2 ^ k)" for w :: u32 and k
    by (simp add: and.assoc)
  moreover have "(w OR 2 ^ k) OR 2 ^ k = w OR 2 ^ k" for w :: u32 and k
    by (simp add: or.assoc)
  ultimately show ?thesis
    using assms lt by (simp add: IntVecMarkAllocated_def IntVecMarkFree_def Let_def bit_clear32 bit_set32)
qed

theorem mark_idempotent_witness:
  "(\<exists>VA1. IntVecMarkAllocated 40 [0xFFFFFFFF, 0xFFFFFFFF] = Inr VA1 \<and>
      IntVecMarkAllocated 40 VA1 = Inr VA1 \<and>
      \<not> bit (VA1 ! unat ((40 :: u32) div 32)) (unat ((40 :: u32) mod 32))) \<and>
   (\<exists>VA2. IntVecMarkFree 40 [0xFFFFFFFF, 0xFFFFFFFF] = Inr VA2 \<and>
      IntVecMarkFree 40 VA2 = Inr VA2 \<and>
      bit (VA2 ! unat ((40 :: u32) div 32)) (unat ((40 :: u32) mod 32)))"
  by (rule mark_idempotent) simp

subsection \<open>A non-debug build allocates from the sibling priority\<close>

text \<open>
  Claim C10. In a non-debug build, an even priority whose bits 0..15 are all zero while
  some bit in 16..31 of the same word is set does not fail: \<^verbatim>\<open>_IntVecAlloc\<close> clears
  the lowest set bit of the upper half and returns a vector of the odd sibling priority,
  in \<open>[(p >> 1) * 32 + 16, (p >> 1) * 32 + 32)\<close>. An odd priority whose bits 16..31 are
  all zero while some bit in 0..15 is set gets the highest set bit of the lower half, a
  vector of the even sibling.
\<close>

theorem IntVecAlloc_trusting_takes_sibling:
  assumes "\<not> DEBUG cfg"
    and "unat (drop_bit 1 p) < length VA"
    and "if p mod 2 = 0
         then (\<forall>j \<in> {0..<16}. \<not> bit (VA ! unat (drop_bit 1 p)) j) \<and>
              (\<exists>j \<in> {16..<32}. bit (VA ! unat (drop_bit 1 p)) j)
         else (\<forall>j \<in> {16..<32}. \<not> bit (VA ! unat (drop_bit 1 p)) j) \<and>
              (\<exists>j \<in> {0..<16}. bit (VA ! unat (drop_bit 1 p)) j)"
  shows "\<exists>k v. bit (VA ! unat (drop_bit 1 p)) k \<and>
           (if p mod 2 = 0
            then 16 \<le> k \<and> k < 32 \<and> (\<forall>j<k. \<not> bit (VA ! unat (drop_bit 1 p)) j)
            else k < 16 \<and> (\<forall>j. k < j \<and> j < 32 \<longrightarrow> \<not> bit (VA ! unat (drop_bit 1 p)) j)) \<and>
           IntVecAlloc cfg p VA =
             Inr (v, VA[unat (drop_bit 1 p) :=
                        VA ! unat (drop_bit 1 p) AND NOT (push_bit k 1)]) \<and>
           v = push_bit 5 (drop_bit 1 p) + of_nat k \<and>
           (length VA \<le> 2 ^ 27 \<longrightarrow>
              (if p mod 2 = 0
               then unat (drop_bit 1 p) * 32 + 16 \<le> unat v \<and> unat v < unat (drop_bit 1 p) * 32 + 32
               else unat (drop_bit 1 p) * 32 \<le> unat v \<and> unat v < unat (drop_bit 1 p) * 32 + 16))"
proof -
  define w where "w = VA ! unat (drop_bit 1 p)"
  note h = assms(3)[folded w_def]
  have "\<exists>k<32. bit w k \<and>
      (if p mod 2 = 0 then 16 \<le> k \<and> (\<forall>j<k. \<not> bit w j)
       else k < 16 \<and> (\<forall>j. k < j \<and> j < 32 \<longrightarrow> \<not> bit w j))"
  proof (cases "p mod 2 = 0")
    case True
    with h have "w \<noteq> 0" by auto
    then obtain i where i: "i < 32" "bit w i" "\<forall>j<i. \<not> bit w j"
      by (rule find_first_set_bit)
    from h True i(2) have "16 \<le> i" by (auto simp: not_less[symmetric])
    with i True show ?thesis by (intro exI[of _ i]) simp
  next
    case False
    with h have "w \<noteq> 0" by auto
    then obtain i where i: "i < 32" "bit w i" "\<forall>j. i < j \<and> j < 32 \<longrightarrow> \<not> bit w j"
      by (rule find_last_set_bit)
    from h False i(1,2) have "i < 16" by (auto simp: not_le[symmetric])
    with i False show ?thesis by (intro exI[of _ i]) simp
  qed
  then obtain k where k: "k < 32" "bit w k"
      "if p mod 2 = 0 then 16 \<le> k \<and> (\<forall>j<k. \<not> bit w j)
       else k < 16 \<and> (\<forall>j. k < j \<and> j < 32 \<longrightarrow> \<not> bit w j)"
    by blast
  define v where "v = push_bit 5 (drop_bit 1 p) + (of_nat k :: u32)"
  have ext: "if p mod 2 = 0 then \<forall>j<k. \<not> bit w j else \<forall>j. k < j \<and> j < 32 \<longrightarrow> \<not> bit w j"
    using k(3) by (simp split: if_splits)
  have alloc: "IntVecAlloc cfg p VA =
      Inr (v, VA[unat (drop_bit 1 p) := w AND NOT (push_bit k 1)])"
    using IntVecAlloc_scan[of cfg p VA k] assms(1,2) k(1,2) ext
    unfolding w_def v_def by simp
  have rng: "unat v = unat (drop_bit 1 p) * 32 + k" if "length VA \<le> 2 ^ 27"
  proof -
    from that assms(2) have "unat (drop_bit 1 p) < 2 ^ 27" by simp
    then show ?thesis
      unfolding v_def using unat_vector[of "drop_bit 1 p" "of_nat k"] k(1)
      by (simp add: unat_idx32)
  qed
  show ?thesis
    apply (rule exI[of _ k], rule exI[of _ v])
    using k alloc rng unfolding w_def[symmetric] v_def[symmetric]
    by (simp split: if_splits)
qed

theorem IntVecAlloc_trusting_takes_sibling_witness:
  "IntVecAlloc \<lparr>DEBUG = False, CONFIG_BOI_HANDLER_SUPPORTED = True,
       CONFIG_EOI_HANDLER_SUPPORTED = True, CONFIG_IDT_NUM_VECTORS = 256,
       IntEnt = 0x100000, IntExit = 0x100400, idt_base_address = 0x8000\<rparr>
     2 [0xFFFFFFFF, 0xFFFF0000] = Inr (48, [0xFFFFFFFF, 0xFFFE0000])"
proof -
  let ?cfg = "\<lparr>DEBUG = False, CONFIG_BOI_HANDLER_SUPPORTED = True,
       CONFIG_EOI_HANDLER_SUPPORTED = True, CONFIG_IDT_NUM_VECTORS = 256,
       IntEnt = 0x100000, IntExit = 0x100400, idt_base_address = 0x8000\<rparr>"
  let ?VA = "[0xFFFFFFFF, 0xFFFF0000 :: u32]"
  have h: "if (2 :: u32) mod 2 = 0
         then (\<forall>j \<in> {0..<16}. \<not> bit (?VA ! unat (drop_bit 1 (2 :: u32))) j) \<and>
              (\<exists>j \<in> {16..<32}. bit (?VA ! unat (drop_bit 1 (2 :: u32))) j)
         else (\<forall>j \<in> {16..<32}. \<not> bit (?VA ! unat (drop_bit 1 (2 :: u32))) j) \<and>
              (\<exists>j \<in> {0..<16}. bit (?VA ! unat (drop_bit 1 (2 :: u32))) j)"
    by code_simp
  have d: "\<not> DEBUG ?cfg" and b: "unat (drop_bit 1 (2 :: u32)) < length ?VA" by simp_all
  from IntVecAlloc_trusting_takes_sibling[OF d b h]
  obtain k v where kv: "16 \<le> k" "k < 32" "\<forall>j<k. \<not> bit (0xFFFF0000 :: u32) j"
     "bit (0xFFFF0000 :: u32) k"
     "IntVecAlloc ?cfg 2 ?VA = Inr (v, ?VA[1 := 0xFFFF0000 AND NOT (push_bit k 1)])"
     "v = push_bit 5 1 + of_nat k"
    by auto
  have "bit (0xFFFF0000 :: u32) 16" by code_simp
  with kv(1,3) have "k = 16" by (metis le_neq_implies_less)
  with kv(5,6) show ?thesis by simp
qed

subsection \<open>Consecutive allocations\<close>

lemma filter_first:
  fixes xs :: "nat list"
  assumes "sorted_wrt (<) xs" and "filter P xs = k # ks"
  shows "P k" "k \<in> set xs" "\<forall>j \<in> set xs. j < k \<longrightarrow> \<not> P j"
    "filter (\<lambda>j. P j \<and> j \<noteq> k) xs = ks"
proof -
  have "k \<in> set (filter P xs)" unfolding assms(2) by simp
  then show "P k" "k \<in> set xs" by simp_all
  have s: "sorted_wrt (<) (k # ks)"
    using sorted_wrt_filter[OF assms(1), of P] unfolding assms(2) .
  show "\<forall>j \<in> set xs. j < k \<longrightarrow> \<not> P j"
  proof (intro ballI impI notI)
    fix j assume "j \<in> set xs" "j < k" "P j"
    then have "j \<in> set (k # ks)" unfolding assms(2)[symmetric] by simp
    with s \<open>j < k\<close> show False by auto
  qed
  have "filter (\<lambda>j. P j \<and> j \<noteq> k) xs = filter (\<lambda>j. j \<noteq> k) (filter P xs)" by simp
  also have "\<dots> = filter (\<lambda>j. j \<noteq> k) ks" unfolding assms(2) by simp
  also have "\<dots> = ks" using s by (auto intro: filter_True)
  finally show "filter (\<lambda>j. P j \<and> j \<noteq> k) xs = ks" .
qed

lemma filter_last:
  fixes xs :: "nat list"
  assumes "sorted_wrt (<) xs" and "filter P xs = ks @ [k]"
  shows "P k" "k \<in> set xs" "\<forall>j \<in> set xs. k < j \<longrightarrow> \<not> P j"
    "filter (\<lambda>j. P j \<and> j \<noteq> k) xs = ks"
proof -
  have "k \<in> set (filter P xs)" unfolding assms(2) by simp
  then show "P k" "k \<in> set xs" by simp_all
  have s: "sorted_wrt (<) (ks @ [k])"
    using sorted_wrt_filter[OF assms(1), of P] unfolding assms(2) .
  show "\<forall>j \<in> set xs. k < j \<longrightarrow> \<not> P j"
  proof (intro ballI impI notI)
    fix j assume "j \<in> set xs" "k < j" "P j"
    then have "j \<in> set (ks @ [k])" unfolding assms(2)[symmetric] by simp
    with s \<open>k < j\<close> show False by (auto simp: sorted_wrt_append)
  qed
  have "filter (\<lambda>j. P j \<and> j \<noteq> k) xs = filter (\<lambda>j. j \<noteq> k) (filter P xs)" by simp
  also have "\<dots> = filter (\<lambda>j. j \<noteq> k) ks" unfolding assms(2) by simp
  also have "\<dots> = ks" using s by (auto intro: filter_True simp: sorted_wrt_append)
  finally show "filter (\<lambda>j. P j \<and> j \<noteq> k) xs = ks" .
qed

lemma free_vectors_update:
  assumes "unat (drop_bit 1 p) < length VA"
  shows "free_vectors p (VA[unat (drop_bit 1 p) := VA ! unat (drop_bit 1 p) AND NOT (2 ^ k)]) =
     map (\<lambda>j. push_bit 5 (drop_bit 1 p) + of_nat j)
       (filter (\<lambda>j. bit (VA ! unat (drop_bit 1 p)) j \<and> j \<noteq> k) (half_bits p))"
proof -
  have "bit (w AND NOT (2 ^ k)) = (\<lambda>j. bit w j \<and> j \<noteq> k)" for w :: u32
    by (rule ext) (simp add: bit_clear32)
  with assms show ?thesis by (simp add: free_vectors_def)
qed

lemma half_bits_sorted: "sorted_wrt (<) (half_bits p)"
  by (simp add: half_bits_def)

lemma half_bits_less: "j \<in> set (half_bits p) \<Longrightarrow> j < 32"
  by (auto simp: half_bits_def split: if_splits)

lemma alloc_step_even:
  assumes par: "p mod 2 = 0"
    and rng: "\<not> (DEBUG cfg \<and> push_bit 4 p + 15 > CONFIG_IDT_NUM_VECTORS cfg)"
    and inb: "unat (drop_bit 1 p) < length VA"
    and fv: "free_vectors p VA = v # vs"
  shows "\<exists>VA'. IntVecAlloc cfg p VA = Inr (v, VA') \<and> length VA' = length VA \<and>
           free_vectors p VA' = vs"
proof -
  define w where "w = VA ! unat (drop_bit 1 p)"
  from fv obtain k ks where f: "filter (bit w) (half_bits p) = k # ks"
    and v: "v = push_bit 5 (drop_bit 1 p) + of_nat k"
    and vs: "vs = map (\<lambda>j. push_bit 5 (drop_bit 1 p) + of_nat j) ks"
    unfolding free_vectors_def w_def[symmetric] by (auto simp: map_eq_Cons_conv)
  note ff = filter_first[OF half_bits_sorted f]
  from ff(2)[unfolded half_bits_even[OF par]] have k16: "k < 16" by simp
  have least: "\<forall>j<k. \<not> bit w j"
  proof (intro allI impI)
    fix j assume "j < k"
    with k16 have "j \<in> set (half_bits p)" unfolding half_bits_even[OF par] by simp
    with ff(3) \<open>j < k\<close> show "\<not> bit w j" by blast
  qed
  have "IntVecAlloc cfg p VA =
      Inr (v, VA[unat (drop_bit 1 p) := w AND NOT (2 ^ k)])"
    unfolding v w_def
    using k16 ff(1) least par
    by (intro IntVecAlloc_scan[OF rng inb]) (simp_all add: w_def)
  moreover have "free_vectors p (VA[unat (drop_bit 1 p) := w AND NOT (2 ^ k)]) = vs"
    unfolding w_def free_vectors_update[OF inb] using ff(4) vs by (simp add: w_def)
  ultimately show ?thesis by simp
qed

lemma alloc_step_odd:
  assumes par: "p mod 2 \<noteq> 0"
    and rng: "\<not> (DEBUG cfg \<and> push_bit 4 p + 15 > CONFIG_IDT_NUM_VECTORS cfg)"
    and inb: "unat (drop_bit 1 p) < length VA"
    and fv: "free_vectors p VA = vs @ [v]"
  shows "\<exists>VA'. IntVecAlloc cfg p VA = Inr (v, VA') \<and> length VA' = length VA \<and>
           free_vectors p VA' = vs"
proof -
  define w where "w = VA ! unat (drop_bit 1 p)"
  from fv obtain k ks where f: "filter (bit w) (half_bits p) = ks @ [k]"
    and v: "v = push_bit 5 (drop_bit 1 p) + of_nat k"
    and vs: "vs = map (\<lambda>j. push_bit 5 (drop_bit 1 p) + of_nat j) ks"
    unfolding free_vectors_def w_def[symmetric] by (auto simp: map_eq_append_conv)
  note ff = filter_last[OF half_bits_sorted f]
  from ff(2)[unfolded half_bits_odd[OF par]] have k16: "16 \<le> k" "k < 32" by simp_all
  have greatest: "\<forall>j. k < j \<and> j < 32 \<longrightarrow> \<not> bit w j"
  proof (intro allI impI)
    fix j assume "k < j \<and> j < 32"
    with k16 have "j \<in> set (half_bits p)" unfolding half_bits_odd[OF par] by simp
    with ff(3) \<open>k < j \<and> j < 32\<close> show "\<not> bit w j" by blast
  qed
  have "IntVecAlloc cfg p VA =
      Inr (v, VA[unat (drop_bit 1 p) := w AND NOT (2 ^ k)])"
    unfolding v w_def
    using k16 ff(1) greatest par
    by (intro IntVecAlloc_scan[OF rng inb]) (simp_all add: w_def)
  moreover have "free_vectors p (VA[unat (drop_bit 1 p) := w AND NOT (2 ^ k)]) = vs"
    unfolding w_def free_vectors_update[OF inb] using ff(4) vs by (simp add: w_def)
  ultimately show ?thesis by simp
qed

lemma alloc_seq_even:
  assumes "p mod 2 = 0"
    and "\<not> (DEBUG cfg \<and> push_bit 4 p + 15 > CONFIG_IDT_NUM_VECTORS cfg)"
    and "unat (drop_bit 1 p) < length VA"
    and "n \<le> length (free_vectors p VA)"
  shows "\<exists>VA'. alloc_seq cfg p n VA = Inr (take n (free_vectors p VA), VA')"
  using assms(3,4)
proof (induction n arbitrary: VA)
  case 0
  then show ?case by simp
next
  case (Suc n)
  from Suc.prems(2) obtain v vs where fv: "free_vectors p VA = v # vs"
    by (cases "free_vectors p VA") auto
  from alloc_step_even[OF assms(1,2) Suc.prems(1) fv]
  obtain VA1 where s: "IntVecAlloc cfg p VA = Inr (v, VA1)" "length VA1 = length VA"
      "free_vectors p VA1 = vs"
    by blast
  from Suc.prems fv s have "unat (drop_bit 1 p) < length VA1" "n \<le> length (free_vectors p VA1)"
    by simp_all
  from Suc.IH[OF this] obtain VA2 where "alloc_seq cfg p n VA1 = Inr (take n vs, VA2)"
    unfolding s(3) by blast
  with s(1) fv show ?case by simp
qed

lemma alloc_seq_odd:
  assumes "p mod 2 \<noteq> 0"
    and "\<not> (DEBUG cfg \<and> push_bit 4 p + 15 > CONFIG_IDT_NUM_VECTORS cfg)"
    and "unat (drop_bit 1 p) < length VA"
    and "n \<le> length (free_vectors p VA)"
  shows "\<exists>VA'. alloc_seq cfg p n VA = Inr (take n (rev (free_vectors p VA)), VA')"
  using assms(3,4)
proof (induction n arbitrary: VA)
  case 0
  then show ?case by simp
next
  case (Suc n)
  from Suc.prems(2) obtain v vs where fv: "free_vectors p VA = vs @ [v]"
    by (cases "free_vectors p VA" rule: rev_cases) auto
  from alloc_step_odd[OF assms(1,2) Suc.prems(1) fv]
  obtain VA1 where s: "IntVecAlloc cfg p VA = Inr (v, VA1)" "length VA1 = length VA"
      "free_vectors p VA1 = vs"
    by blast
  from Suc.prems fv s have "unat (drop_bit 1 p) < length VA1" "n \<le> length (free_vectors p VA1)"
    by simp_all
  from Suc.IH[OF this] obtain VA2 where "alloc_seq cfg p n VA1 = Inr (take n (rev vs), VA2)"
    unfolding s(3) by blast
  with s(1) fv show ?case by simp
qed

lemma free_vectors_ascending:
  assumes "unat (drop_bit 1 p) < 2 ^ 27"
  shows "sorted_wrt (<) (free_vectors p VA)"
proof -
  have mono: "push_bit 5 (drop_bit 1 p) + (of_nat i :: u32) < push_bit 5 (drop_bit 1 p) + of_nat j"
    if "i < j" "j < 32" for i j
  proof -
    from that have "unat (of_nat i :: u32) = i" "unat (of_nat j :: u32) = j"
      by (simp_all add: unat_idx32)
    with that unat_vector[OF assms, of "of_nat i"] unat_vector[OF assms, of "of_nat j"]
    show ?thesis by (simp add: word_less_nat_alt)
  qed
  have "sorted_wrt (<) (filter (bit (VA ! unat (drop_bit 1 p))) (half_bits p))"
    by (rule sorted_wrt_filter[OF half_bits_sorted])
  then have "sorted_wrt (\<lambda>i j. i < j \<and> j < 32)
      (filter (bit (VA ! unat (drop_bit 1 p))) (half_bits p))"
    by (rule sorted_wrt_mono_rel[rotated]) (auto dest: half_bits_less)
  then show ?thesis
    unfolding free_vectors_def sorted_wrt_map
    by (rule sorted_wrt_mono_rel[rotated]) (blast intro: mono)
qed

text \<open>
  Claim C5. For a priority whose word is in the array (and, in a debug build, that passes
  the check against \<^verbatim>\<open>CONFIG_IDT_NUM_VECTORS\<close>), the first \<open>n\<close> consecutive calls
  of \<^verbatim>\<open>_IntVecAlloc\<close>, for any \<open>n\<close> up to the number of free vectors of its half,
  return these free vectors in ascending order for an even priority and in descending
  order for an odd priority. \<open>free_vectors\<close> lists them lowest first.
\<close>

theorem alloc_seq_order:
  assumes "DEBUG cfg \<longrightarrow> push_bit 4 p + 15 \<le> CONFIG_IDT_NUM_VECTORS cfg"
    and "unat (drop_bit 1 p) < length VA"
    and "n \<le> length (free_vectors p VA)"
  shows "(\<exists>VA'. alloc_seq cfg p n VA =
            Inr (take n (if p mod 2 = 0 then free_vectors p VA
                         else rev (free_vectors p VA)), VA')) \<and>
         (length VA \<le> 2 ^ 27 \<longrightarrow> sorted_wrt (<) (free_vectors p VA))"
proof -
  from assms(1) have rng: "\<not> (DEBUG cfg \<and> push_bit 4 p + 15 > CONFIG_IDT_NUM_VECTORS cfg)"
    by auto
  have "\<exists>VA'. alloc_seq cfg p n VA =
            Inr (take n (if p mod 2 = 0 then free_vectors p VA
                         else rev (free_vectors p VA)), VA')"
  proof (cases "p mod 2 = 0")
    case True
    with alloc_seq_even[OF True rng assms(2,3)] show ?thesis by simp
  next
    case False
    with alloc_seq_odd[OF False rng assms(2,3)] show ?thesis by simp
  qed
  moreover have "sorted_wrt (<) (free_vectors p VA)" if "length VA \<le> 2 ^ 27"
  proof -
    from that assms(2) have "unat (drop_bit 1 p) < 2 ^ 27" by simp
    then show ?thesis by (rule free_vectors_ascending)
  qed
  ultimately show ?thesis by blast
qed

theorem alloc_seq_order_witness:
  "(\<exists>VA'. alloc_seq \<lparr>DEBUG = True, CONFIG_BOI_HANDLER_SUPPORTED = True,
       CONFIG_EOI_HANDLER_SUPPORTED = True, CONFIG_IDT_NUM_VECTORS = 256,
       IntEnt = 0x100000, IntExit = 0x100400, idt_base_address = 0x8000\<rparr>
     2 3 [0xFFFFFFFF, 0xFFFF0F0A] = Inr ([33, 35, 40], VA')) \<and>
   (\<exists>VA'. alloc_seq \<lparr>DEBUG = True, CONFIG_BOI_HANDLER_SUPPORTED = True,
       CONFIG_EOI_HANDLER_SUPPORTED = True, CONFIG_IDT_NUM_VECTORS = 256,
       IntEnt = 0x100000, IntExit = 0x100400, idt_base_address = 0x8000\<rparr>
     3 2 [0xFFFFFFFF, 0x50050F0A] = Inr ([62, 60], VA')) \<and>
   free_vectors 2 [0xFFFFFFFF, 0xFFFF0F0A] = [33, 35, 40, 41, 42, 43] \<and>
   free_vectors 3 [0xFFFFFFFF, 0x50050F0A] = [48, 50, 60, 62] \<and>
   sorted_wrt (<) (free_vectors 2 [0xFFFFFFFF, 0xFFFF0F0A])"
proof -
  let ?C = "\<lparr>DEBUG = True, CONFIG_BOI_HANDLER_SUPPORTED = True,
       CONFIG_EOI_HANDLER_SUPPORTED = True, CONFIG_IDT_NUM_VECTORS = 256,
       IntEnt = 0x100000, IntExit = 0x100400, idt_base_address = 0x8000\<rparr>"
  have fe: "free_vectors 2 [0xFFFFFFFF, 0xFFFF0F0A] = [33, 35, 40, 41, 42, 43]"
    and fo: "free_vectors 3 [0xFFFFFFFF, 0x50050F0A] = [48, 50, 60, 62]"
    by code_simp+
  have r: "DEBUG ?C \<longrightarrow> push_bit 4 (2 :: u32) + 15 \<le> CONFIG_IDT_NUM_VECTORS ?C"
    "DEBUG ?C \<longrightarrow> push_bit 4 (3 :: u32) + 15 \<le> CONFIG_IDT_NUM_VECTORS ?C"
    by simp_all
  note te = alloc_seq_order[of ?C 2 "[0xFFFFFFFF, 0xFFFF0F0A]" 3, OF r(1)]
  note to = alloc_seq_order[of ?C 3 "[0xFFFFFFFF, 0x50050F0A]" 2, OF r(2)]
  have e: "\<exists>VA'. alloc_seq ?C 2 3 [0xFFFFFFFF, 0xFFFF0F0A] = Inr ([33, 35, 40], VA')"
    using te unfolding fe by simp
  have o: "\<exists>VA'. alloc_seq ?C 3 2 [0xFFFFFFFF, 0x50050F0A] = Inr ([62, 60], VA')"
    using to unfolding fo by simp
  have s: "sorted_wrt (<) (free_vectors 2 [0xFFFFFFFF, 0xFFFF0F0A])"
    using te unfolding fe by simp
  from e o fe fo s show ?thesis by (intro conjI)
qed

subsection \<open>Independence of the two halves of a word\<close>

lemma mark_entry: "unat (drop_bit 1 (v div 16 :: u32)) = unat (v div 32)"
  by (simp add: unat_drop_bit_eq unat_div drop_bit_eq_div div_mult2_eq)

lemma mark_bit_half: "unat (v mod 32 :: u32) \<in> set (half_bits (v div 16))"
proof -
  have m: "unat (v mod 32) = unat v mod 32" by (simp add: unat_mod)
  have "(v div 16) mod 2 = 0 \<longleftrightarrow> unat ((v div 16) mod 2) = 0"
    by (simp add: unat_eq_0)
  also have "\<dots> \<longleftrightarrow> (unat v div 16) mod 2 = 0"
    by (simp add: unat_mod unat_div)
  finally have par: "(v div 16) mod 2 = 0 \<longleftrightarrow> (unat v div 16) mod 2 = 0" .
  have split: "unat v mod 32 = 16 * (unat v div 16 mod 2) + unat v mod 16"
    using mod_mult2_eq[of "unat v" 16 2] by simp
  show ?thesis
  proof (cases "(v div 16) mod 2 = 0")
    case True
    with par have "(unat v div 16) mod 2 = 0" by simp
    with split have "unat v mod 32 < 16" by simp
    then show ?thesis unfolding half_bits_even[OF True] m by simp
  next
    case False
    with par have "(unat v div 16) mod 2 \<noteq> 0" by simp
    then have "unat v div 16 mod 2 = 1" by simp
    with split have "16 \<le> unat v mod 32" "unat v mod 32 < 32" by simp_all
    then show ?thesis unfolding half_bits_odd[OF False] m by simp
  qed
qed

lemma untouched_refl: "untouched p VA VA"
  by (simp add: untouched_def)

lemma untouched_trans: "untouched p VA VA1 \<Longrightarrow> untouched p VA1 VA2 \<Longrightarrow> untouched p VA VA2"
  by (simp add: untouched_def)

lemma untouched_clear:
  assumes "e = unat (drop_bit 1 p)" "k \<in> set (half_bits p)" "e < length VA"
  shows "untouched p VA (VA[e := VA ! e AND NOT (2 ^ k)])"
  using assms by (auto simp: untouched_def nth_list_update bit_clear32)

lemma untouched_set:
  assumes "e = unat (drop_bit 1 p)" "k \<in> set (half_bits p)" "e < length VA"
  shows "untouched p VA (VA[e := VA ! e OR 2 ^ k])"
  using assms by (auto simp: untouched_def nth_list_update bit_set32)

lemma IntVecAlloc_untouched:
  assumes res: "IntVecAlloc cfg p VA = Inr (v, VA')"
    and guard: "DEBUG cfg \<or> (\<exists>j \<in> set (half_bits p). bit (VA ! unat (drop_bit 1 p)) j)"
  shows "untouched p VA VA'"
  using res
proof (cases rule: IntVecAlloc_Inr_cases)
  case unavailable
  then show ?thesis by (simp add: untouched_refl)
next
  case (allocated fsb)
  define w where "w = VA ! unat (drop_bit 1 p)"
  have nz: "w \<noteq> 0"
  proof
    assume "w = 0"
    then have "VA ! unat (drop_bit 1 p) = 0" unfolding w_def .
    with allocated(2) have "fsb = 0"
      by (simp add: find_first_set_0 find_last_set_0)
    then have "unat (fsb - 1) = 2 ^ 32 - 1"
      by (simp add: unsigned_minus_1_eq_mask mask_eq_exp_minus_1)
    with allocated(4) show False by simp
  qed
  have "unat (fsb - 1) \<in> set (half_bits p)"
  proof (cases "p mod 2 = 0")
    case True
    from nz obtain i where i: "i < 32" "bit w i" "\<forall>j<i. \<not> bit w j"
        "find_first_set w = of_nat (Suc i)"
      by (rule find_first_set_bit)
    from allocated(2) True i(4) have fsb: "fsb = of_nat (Suc i)" by (simp add: w_def)
    have "i < 16"
    proof (cases "DEBUG cfg")
      case True
      with allocated(3) \<open>p mod 2 = 0\<close> have "\<not> fsb > 16" by simp
      with i(1) show ?thesis unfolding fsb by (simp add: pos32_greater del: of_nat_Suc)
    next
      case False
      with guard obtain j where "j \<in> set (half_bits p)" "bit w j" unfolding w_def by blast
      with True have "j < 16" "bit w j" by (simp_all add: half_bits_even)
      with i(3) show ?thesis by (meson not_less order.strict_trans1)
    qed
    moreover have "unat (fsb - 1) = i" unfolding fsb using i(1) by (simp add: unat_idx32)
    ultimately show ?thesis using True by (simp add: half_bits_even)
  next
    case False
    from nz obtain i where i: "i < 32" "bit w i" "\<forall>j. i < j \<and> j < 32 \<longrightarrow> \<not> bit w j"
        "find_last_set w = of_nat (Suc i)"
      by (rule find_last_set_bit)
    from allocated(2) False i(4) have fsb: "fsb = of_nat (Suc i)" by (simp add: w_def)
    have "16 \<le> i"
    proof (cases "DEBUG cfg")
      case True
      with allocated(3) False have "\<not> fsb < 17" by simp
      with i(1) show ?thesis unfolding fsb by (simp add: pos32_less del: of_nat_Suc)
    next
      case nd: False
      with guard obtain j where "j \<in> set (half_bits p)" "bit w j" unfolding w_def by blast
      with False have "16 \<le> j" "j < 32" "bit w j" by (simp_all add: half_bits_odd)
      with i(3) show ?thesis by (meson not_less order.trans linorder_le_cases)
    qed
    moreover have "unat (fsb - 1) = i" unfolding fsb using i(1) by (simp add: unat_idx32)
    ultimately show ?thesis using False i(1) by (simp add: half_bits_odd)
  qed
  then show ?thesis
    unfolding allocated(6) using untouched_clear[OF refl _ allocated(1)] by simp
qed

lemma apply_op_untouched:
  assumes "apply_op cfg x VA = Inr VA'" and "op_priority x = p"
    and "case x of Alloc q \<Rightarrow>
           DEBUG cfg \<or> (\<exists>j \<in> set (half_bits q). bit (VA ! unat (drop_bit 1 q)) j)
         | _ \<Rightarrow> True"
  shows "untouched p VA VA'"
proof (cases x)
  case (Alloc q)
  with assms(2) have q: "q = p" by simp
  from assms(1) Alloc q obtain v where "IntVecAlloc cfg p VA = Inr (v, VA')"
    by (auto split: sum.splits)
  moreover from assms(3) Alloc q
  have "DEBUG cfg \<or> (\<exists>j \<in> set (half_bits p). bit (VA ! unat (drop_bit 1 p)) j)" by simp
  ultimately show ?thesis by (rule IntVecAlloc_untouched)
next
  case (MarkAllocated v)
  with assms(2) have p: "p = v div 16" by simp
  from assms(1) MarkAllocated have inb: "unat (v div 32) < length VA"
    and VA': "VA' = VA[unat (v div 32) := VA ! unat (v div 32) AND NOT (2 ^ unat (v mod 32))]"
    by (auto simp: IntVecMarkAllocated_def Let_def split: if_splits)
  show ?thesis
    unfolding VA' p
    by (rule untouched_clear[OF mark_entry[symmetric] mark_bit_half inb])
next
  case (MarkFree v)
  with assms(2) have p: "p = v div 16" by simp
  from assms(1) MarkFree have inb: "unat (v div 32) < length VA"
    and VA': "VA' = VA[unat (v div 32) := VA ! unat (v div 32) OR 2 ^ unat (v mod 32)]"
    by (auto simp: IntVecMarkFree_def Let_def split: if_splits)
  show ?thesis
    unfolding VA' p
    by (rule untouched_set[OF mark_entry[symmetric] mark_bit_half inb])
qed

lemma alloc_guarded_debug: "DEBUG cfg \<Longrightarrow> alloc_guarded cfg ops VA"
  by (induction ops arbitrary: VA) (auto split: vec_op.splits sum.splits)

lemma run_ops_untouched:
  assumes "\<forall>x \<in> set ops. op_priority x = p"
    and "alloc_guarded cfg ops VA"
    and "run_ops cfg ops VA = Inr VA'"
  shows "untouched p VA VA'"
  using assms
proof (induction ops arbitrary: VA)
  case Nil
  then show ?case by (simp add: untouched_refl)
next
  case (Cons x xs)
  from Cons.prems(3) obtain VA1 where s: "apply_op cfg x VA = Inr VA1"
      "run_ops cfg xs VA1 = Inr VA'"
    by (auto split: sum.splits)
  from Cons.prems(1,2) s(1) have "untouched p VA VA1"
    by (intro apply_op_untouched[OF s(1)]) simp_all
  moreover from Cons.prems(1,2) s have "untouched p VA1 VA'"
    by (intro Cons.IH) simp_all
  ultimately show ?case by (rule untouched_trans)
qed

text \<open>
  Claim C8, amended. For a sequence of \<^verbatim>\<open>_IntVecAlloc\<close>,
  \<^verbatim>\<open>_IntVecMarkAllocated\<close> and \<^verbatim>\<open>_IntVecMarkFree\<close> calls that are all addressed
  to one priority \<open>p\<close>, in a debug build, or in a non-debug build when no
  \<^verbatim>\<open>_IntVecAlloc\<close> call is made while the half of \<open>p\<close> has no free vector: every bit
  outside the half of \<open>p\<close> is unchanged, in particular the 16 bits of the sibling
  priority in the same word.
\<close>

theorem run_ops_other_bits_unchanged:
  assumes "\<forall>x \<in> set ops. op_priority x = p"
    and "DEBUG cfg \<or> alloc_guarded cfg ops VA"
    and "run_ops cfg ops VA = Inr VA'"
  shows "length VA' = length VA \<and>
         (\<forall>i<length VA. \<forall>j<32.
            \<not> (i = unat (drop_bit 1 p) \<and> j \<in> set (half_bits p)) \<longrightarrow>
            bit (VA' ! i) j = bit (VA ! i) j)"
proof -
  from assms(2) have "alloc_guarded cfg ops VA" by (auto intro: alloc_guarded_debug)
  with assms(1) have "untouched p VA VA'" using assms(3) by (rule run_ops_untouched)
  then show ?thesis by (simp add: untouched_def)
qed

theorem run_ops_other_bits_unchanged_witness:
  "run_ops \<lparr>DEBUG = True, CONFIG_BOI_HANDLER_SUPPORTED = True,
       CONFIG_EOI_HANDLER_SUPPORTED = True, CONFIG_IDT_NUM_VECTORS = 256,
       IntEnt = 0x100000, IntExit = 0x100400, idt_base_address = 0x8000\<rparr>
     [Alloc 2, MarkAllocated 37, MarkFree 33, Alloc 2, Alloc 2]
     [0xFFFFFFFF, 0xFFFF0003] = Inr [0xFFFFFFFF, 0xFFFF0000] \<and>
   bit ([0xFFFFFFFF, 0xFFFF0000 :: u32] ! 1) 16 = bit ([0xFFFFFFFF, 0xFFFF0003 :: u32] ! 1) 16 \<and>
   bit ([0xFFFFFFFF, 0xFFFF0000 :: u32] ! 1) 31 = bit ([0xFFFFFFFF, 0xFFFF0003 :: u32] ! 1) 31 \<and>
   bit ([0xFFFFFFFF, 0xFFFF0000 :: u32] ! 0) 3 = bit ([0xFFFFFFFF, 0xFFFF0003 :: u32] ! 0) 3"
proof -
  let ?C = "\<lparr>DEBUG = True, CONFIG_BOI_HANDLER_SUPPORTED = True,
       CONFIG_EOI_HANDLER_SUPPORTED = True, CONFIG_IDT_NUM_VECTORS = 256,
       IntEnt = 0x100000, IntExit = 0x100400, idt_base_address = 0x8000\<rparr>"
  let ?ops = "[Alloc 2, MarkAllocated 37, MarkFree 33, Alloc 2, Alloc 2]"
  let ?VA = "[0xFFFFFFFF, 0xFFFF0003 :: u32]"
  let ?VA' = "[0xFFFFFFFF, 0xFFFF0000 :: u32]"
  have a: "\<forall>x \<in> set ?ops. op_priority x = 2" by simp
  have b: "DEBUG ?C \<or> alloc_guarded ?C ?ops ?VA" by simp
  have c: "run_ops ?C ?ops ?VA = Inr ?VA'" by code_simp
  note t = run_ops_other_bits_unchanged[OF a b c, THEN conjunct2, rule_format]
  have h: "set (half_bits (2 :: u32)) = {0..<16}" by (rule half_bits_even) simp
  have "bit (?VA' ! 1) 16 = bit (?VA ! 1) 16" by (rule t) (simp_all add: h)
  moreover have "bit (?VA' ! 1) 31 = bit (?VA ! 1) 31" by (rule t) (simp_all add: h)
  moreover have "bit (?VA' ! 0) 3 = bit (?VA ! 0) 3" by (rule t) (simp_all add: h)
  ultimately show ?thesis using c by (intro conjI)
qed

text \<open>
  The claim as stated fails in a non-debug build: with bits 0..15 of word 1 all zero,
  \<^verbatim>\<open>_IntVecAlloc(2)\<close> clears bit 16, which belongs to priority 3.
\<close>

theorem sibling_bit_cleared_counterexample:
  "\<not> DEBUG \<lparr>DEBUG = False, CONFIG_BOI_HANDLER_SUPPORTED = True,
       CONFIG_EOI_HANDLER_SUPPORTED = True, CONFIG_IDT_NUM_VECTORS = 256,
       IntEnt = 0x100000, IntExit = 0x100400, idt_base_address = 0x8000\<rparr> \<and>
   op_priority (Alloc 2) = 2 \<and>
   run_ops \<lparr>DEBUG = False, CONFIG_BOI_HANDLER_SUPPORTED = True,
       CONFIG_EOI_HANDLER_SUPPORTED = True, CONFIG_IDT_NUM_VECTORS = 256,
       IntEnt = 0x100000, IntExit = 0x100400, idt_base_address = 0x8000\<rparr>
     [Alloc 2] [0xFFFFFFFF, 0xFFFF0000] = Inr [0xFFFFFFFF, 0xFFFE0000] \<and>
   bit ([0xFFFFFFFF, 0xFFFF0000 :: u32] ! 1) 16 \<and>
   \<not> bit ([0xFFFFFFFF, 0xFFFE0000 :: u32] ! 1) 16"
proof -
  have "run_ops \<lparr>DEBUG = False, CONFIG_BOI_HANDLER_SUPPORTED = True,
       CONFIG_EOI_HANDLER_SUPPORTED = True, CONFIG_IDT_NUM_VECTORS = 256,
       IntEnt = 0x100000, IntExit = 0x100400, idt_base_address = 0x8000\<rparr>
     [Alloc 2] [0xFFFFFFFF, 0xFFFF0000] = Inr [0xFFFFFFFF, 0xFFFE0000]"
    by code_simp
  moreover have "bit ([0xFFFFFFFF, 0xFFFF0000 :: u32] ! 1) 16"
    "\<not> bit ([0xFFFFFFFF, 0xFFFE0000 :: u32] ! 1) 16"
    by code_simp+
  ultimately show ?thesis by simp
qed

section \<open>Properties of the stub synthesizer and of the connect operation\<close>

subsection \<open>Memory as a list of stored bytes\<close>

lemma le32_roundtrip:
  fixes v :: u32
  shows "ucast (ucast v :: u8) OR push_bit 8 (ucast (ucast (drop_bit 8 v) :: u8)) OR
     push_bit 16 (ucast (ucast (drop_bit 16 v) :: u8)) OR
     push_bit 24 (ucast (ucast (drop_bit 24 v) :: u8)) = v"
proof (rule bit_word_eqI)
  fix n
  assume "n < LENGTH(32)"
  then consider "n < 8" | "8 \<le> n" "n < 16" | "16 \<le> n" "n < 24" | "24 \<le> n" "n < 32"
    by fastforce
  then show "bit ((ucast (ucast v :: u8) :: u32) OR
     push_bit 8 (ucast (ucast (drop_bit 8 v) :: u8)) OR
     push_bit 16 (ucast (ucast (drop_bit 16 v) :: u8)) OR
     push_bit 24 (ucast (ucast (drop_bit 24 v) :: u8))) n = bit v n"
    by cases (auto simp: bit_simps)
qed

lemma length_le32: "length (le32 v) = 4"
  by (simp add: le32_def)

lemma write_bytes_append:
  "write_bytes a (bs @ cs) m = write_bytes (a + of_nat (length bs)) cs (write_bytes a bs m)"
  by (induction bs arbitrary: a m) (simp_all add: add.assoc)

lemma STUB_diff: "k < 2 ^ 32 \<Longrightarrow> unat (STUB a k - a) = k"
  by (simp add: STUB_def unat_of_nat)

lemma write_bytes_at:
  "length bs \<le> 2 ^ 32 \<Longrightarrow>
   write_bytes a bs m x = (if unat (x - a) < length bs then bs ! unat (x - a) else m x)"
proof (induction bs arbitrary: a m)
  case Nil
  then show ?case by simp
next
  case (Cons b bs)
  from Cons.prems have len: "length bs < 2 ^ 32" by simp
  show ?case
  proof (cases "x = a")
    case True
    have "unat (a - (a + 1)) = 2 ^ 32 - 1"
    proof -
      have "a - (a + 1) = (- 1 :: u32)" by simp
      then show ?thesis by (simp add: unsigned_minus_1_eq_mask mask_eq_exp_minus_1)
    qed
    then have "\<not> unat (x - (a + 1)) < length bs" using len True by simp
    with len have "write_bytes (a + 1) bs (m(a := b)) x = (m(a := b)) x"
      by (simp add: Cons.IH[of "a + 1" "m(a := b)"] del: fun_upd_apply)
    with True show ?thesis by simp
  next
    case False
    then have nz: "x - a \<noteq> 0" by simp
    then have pos: "0 < unat (x - a)" by (simp add: unat_gt_0)
    have e: "x - (a + 1) = (x - a) - 1" by simp
    have d: "unat (x - (a + 1)) = unat (x - a) - 1"
      unfolding e by (rule unat_minus_one[OF nz])
    from len have "write_bytes (a + 1) bs (m(a := b)) x =
        (if unat (x - (a + 1)) < length bs then bs ! unat (x - (a + 1)) else (m(a := b)) x)"
      by (simp add: Cons.IH[of "a + 1" "m(a := b)"] del: fun_upd_apply)
    with False pos d show ?thesis
      by (auto simp: nth_Cons')
  qed
qed

declare write_bytes.simps [simp del]

lemma wb_init: "m(STUB a 0 := b) = write_bytes a [b] m"
  by (simp add: STUB_def write_bytes.simps)

lemma wb_byte:
  "length bs = k \<Longrightarrow> (write_bytes a bs m)(STUB a k := b) = write_bytes a (bs @ [b]) m"
  by (simp add: write_bytes_append STUB_def write_bytes.simps)

lemma UNALIGNED_WRITE_bytes: "UNALIGNED_WRITE p v m = write_bytes p (le32 v) m"
  by (simp add: UNALIGNED_WRITE_def le32_def add.assoc write_bytes.simps)

lemma wb_word:
  "length bs = k \<Longrightarrow>
   UNALIGNED_WRITE (STUB a k) v (write_bytes a bs m) = write_bytes a (bs @ le32 v) m"
  by (simp add: write_bytes_append STUB_def UNALIGNED_WRITE_bytes)

lemma wb_read:
  "k < length bs \<Longrightarrow> length bs \<le> 2 ^ 32 \<Longrightarrow> write_bytes a bs m (STUB a k) = bs ! k"
  by (simp add: write_bytes_at STUB_diff)

lemma STUB_plus: "STUB a k + 1 = STUB a (k + 1)" "STUB a k + 2 = STUB a (k + 2)"
  "STUB a k + 3 = STUB a (k + 3)"
  by (simp_all add: STUB_def)

lemma wb_read32:
  assumes "k + 3 < length bs" "length bs \<le> 2 ^ 32"
  shows "read32 (write_bytes a bs m) (STUB a k) =
     ucast (bs ! k) OR push_bit 8 (ucast (bs ! (k + 1))) OR
     push_bit 16 (ucast (bs ! (k + 2))) OR push_bit 24 (ucast (bs ! (k + 3)))"
  using assms unfolding read32_def STUB_plus by (simp add: wb_read)

lemma wb_outside:
  "length bs \<le> 2 ^ 32 \<Longrightarrow> \<not> unat (x - a) < length bs \<Longrightarrow> write_bytes a bs m x = m x"
  by (simp add: write_bytes_at)

subsection \<open>The memory after the synthesis\<close>

lemma boi_size_cases:
  obtains (none) "boi_size cfg r = 0" "\<And>st. emit_boi cfg r stub st = st"
      "\<not> (CONFIG_BOI_HANDLER_SUPPORTED cfg \<and> boiRtn r \<noteq> 0 \<and> boiParamRequired r \<noteq> 0)"
  | (call) "boi_size cfg r = 5"
      "\<And>off num m. emit_boi cfg r stub (off, num, m) =
         (off + 5, num,
          UNALIGNED_WRITE (STUB stub (1 + unat off)) (boiRtn r - STUB stub (5 + unat off))
            (m(STUB stub (unat off) := IA32_CALL_OPCODE)))"
      "\<not> (CONFIG_BOI_HANDLER_SUPPORTED cfg \<and> boiRtn r \<noteq> 0 \<and> boiParamRequired r \<noteq> 0)"
  | (push_call) "boi_size cfg r = 10"
      "\<And>off num m. emit_boi cfg r stub (off, num, m) =
         (off + 10, num + 1,
          UNALIGNED_WRITE (STUB stub (6 + unat off)) (boiRtn r - STUB stub (10 + unat off))
            ((UNALIGNED_WRITE (STUB stub (1 + unat off)) (boiRtnParm r)
               (m(STUB stub (unat off) := IA32_PUSH_OPCODE)))
             (STUB stub (5 + unat off) := IA32_CALL_OPCODE)))"
      "CONFIG_BOI_HANDLER_SUPPORTED cfg \<and> boiRtn r \<noteq> 0 \<and> boiParamRequired r \<noteq> 0"
proof (cases "CONFIG_BOI_HANDLER_SUPPORTED cfg \<and> boiRtn r \<noteq> 0")
  case False
  then show thesis by (intro none) (auto simp: boi_size_def emit_boi_def split: prod.splits)
next
  case True
  show thesis
  proof (cases "boiParamRequired r \<noteq> 0")
    case False
    with True show thesis by (intro call) (auto simp: boi_size_def emit_boi_def Let_def)
  next
    case req: True
    with True show thesis by (intro push_call) (auto simp: boi_size_def emit_boi_def Let_def)
  qed
qed

lemma eoi_size_cases:
  obtains (none) "eoi_size cfg r = 0" "\<And>st. emit_eoi cfg r stub st = st"
      "\<not> (CONFIG_EOI_HANDLER_SUPPORTED cfg \<and> eoiRtn r \<noteq> 0 \<and> eoiParamRequired r \<noteq> 0)"
  | (call) "eoi_size cfg r = 5"
      "\<And>off num m. emit_eoi cfg r stub (off, num, m) =
         (off + 5, num,
          UNALIGNED_WRITE (STUB stub (1 + unat off)) (eoiRtn r - STUB stub (5 + unat off))
            (m(STUB stub (unat off) := IA32_CALL_OPCODE)))"
      "\<not> (CONFIG_EOI_HANDLER_SUPPORTED cfg \<and> eoiRtn r \<noteq> 0 \<and> eoiParamRequired r \<noteq> 0)"
  | (push_call) "eoi_size cfg r = 10"
      "\<And>off num m. emit_eoi cfg r stub (off, num, m) =
         (off + 10, num + 1,
          UNALIGNED_WRITE (STUB stub (6 + unat off)) (eoiRtn r - STUB stub (10 + unat off))
            ((UNALIGNED_WRITE (STUB stub (1 + unat off)) (eoiRtnParm r)
               (m(STUB stub (unat off) := IA32_PUSH_OPCODE)))
             (STUB stub (5 + unat off) := IA32_CALL_OPCODE)))"
      "CONFIG_EOI_HANDLER_SUPPORTED cfg \<and> eoiRtn r \<noteq> 0 \<and> eoiParamRequired r \<noteq> 0"
proof (cases "CONFIG_EOI_HANDLER_SUPPORTED cfg \<and> eoiRtn r \<noteq> 0")
  case False
  then show thesis by (intro none) (auto simp: eoi_size_def emit_eoi_def split: prod.splits)
next
  case True
  show thesis
  proof (cases "eoiParamRequired r \<noteq> 0")
    case False
    with True show thesis by (intro call) (auto simp: eoi_size_def emit_eoi_def Let_def)
  next
    case req: True
    with True show thesis by (intro push_call) (auto simp: eoi_size_def emit_eoi_def Let_def)
  qed
qed


lemmas synth_rw = emit_entry_def emit_isr_def emit_cleanup_def emit_exit_def Let_def
  IA32_CALL_OPCODE_def IA32_PUSH_OPCODE_def IA32_JMP_OPCODE_def IA32_ADD_OPCODE_def
  wb_init wb_byte wb_word wb_read wb_read32 le32_def le32_roundtrip

lemma synth_displacements:
  assumes "m = snd (snd (synthesize cfg r routine parameter stub m0))"
    and "b = boi_size cfg r" and "e = eoi_size cfg r"
  shows "m (STUB stub 0) = IA32_CALL_OPCODE \<and> encodes_target m stub 1 (IntEnt cfg) \<and>
     (b \<noteq> 0 \<longrightarrow> m (STUB stub b) = IA32_CALL_OPCODE \<and>
         encodes_target m stub (b + 1) (boiRtn r)) \<and>
     m (STUB stub (b + 10)) = IA32_CALL_OPCODE \<and>
     encodes_target m stub (b + 11) routine \<and>
     (e \<noteq> 0 \<longrightarrow> m (STUB stub (b + e + 10)) = IA32_CALL_OPCODE \<and>
         encodes_target m stub (b + e + 11) (eoiRtn r)) \<and>
     m (STUB stub (b + e + 18)) = IA32_JMP_OPCODE \<and>
     encodes_target m stub (b + e + 19) (IntExit cfg)"
proof (cases rule: boi_size_cases[of cfg r stub])
  case b_none: none
  show ?thesis
  proof (cases rule: eoi_size_cases[of cfg r stub])
    case e_none: none
    show ?thesis
      using assms(1) unfolding synthesize_def assms(2,3) b_none(1) e_none(1)
      by (simp add: synth_rw b_none(2) e_none(2) encodes_target_def)
  next
    case e_call: call
    show ?thesis
      using assms(1) unfolding synthesize_def assms(2,3) b_none(1) e_call(1)
      by (simp add: synth_rw b_none(2) e_call(2) encodes_target_def)
  next
    case e_push_call: push_call
    show ?thesis
      using assms(1) unfolding synthesize_def assms(2,3) b_none(1) e_push_call(1)
      by (simp add: synth_rw b_none(2) e_push_call(2) encodes_target_def)
  qed
next
  case b_call: call
  show ?thesis
  proof (cases rule: eoi_size_cases[of cfg r stub])
    case e_none: none
    show ?thesis
      using assms(1) unfolding synthesize_def assms(2,3) b_call(1) e_none(1)
      by (simp add: synth_rw b_call(2) e_none(2) encodes_target_def)
  next
    case e_call: call
    show ?thesis
      using assms(1) unfolding synthesize_def assms(2,3) b_call(1) e_call(1)
      by (simp add: synth_rw b_call(2) e_call(2) encodes_target_def)
  next
    case e_push_call: push_call
    show ?thesis
      using assms(1) unfolding synthesize_def assms(2,3) b_call(1) e_push_call(1)
      by (simp add: synth_rw b_call(2) e_push_call(2) encodes_target_def)
  qed
next
  case b_push_call: push_call
  show ?thesis
  proof (cases rule: eoi_size_cases[of cfg r stub])
    case e_none: none
    show ?thesis
      using assms(1) unfolding synthesize_def assms(2,3) b_push_call(1) e_none(1)
      by (simp add: synth_rw b_push_call(2) e_none(2) encodes_target_def)
  next
    case e_call: call
    show ?thesis
      using assms(1) unfolding synthesize_def assms(2,3) b_push_call(1) e_call(1)
      by (simp add: synth_rw b_push_call(2) e_call(2) encodes_target_def)
  next
    case e_push_call: push_call
    show ?thesis
      using assms(1) unfolding synthesize_def assms(2,3) b_push_call(1) e_push_call(1)
      by (simp add: synth_rw b_push_call(2) e_push_call(2) encodes_target_def)
  qed
qed

lemma irq_connect_result:
  assumes "SysIntVecAlloc irq priority s = (r, s1)"
    and "\<not> (DEBUG cfg \<and> vector r = - 1)"
  shows "irq_connect cfg SysIntVecAlloc irq priority routine parameter stub s =
           (vector r,
            s1\<lparr>mem := snd (snd (synthesize cfg r routine parameter stub (mem s1))),
               idt := (idt s1)(idt_base_address cfg + push_bit 3 (vector r) \<mapsto>
                         \<lparr>gate_handler = stub, gate_dpl = 0\<rparr>)\<rparr>)"
  using assms
  by (auto simp: irq_connect_def IntVecSet_def IdtEntCreate_def Let_def split: prod.splits)

lemma synth_cleanup:
  assumes "m = snd (snd (synthesize cfg r routine parameter stub m0))"
    and "b = boi_size cfg r" and "e = eoi_size cfg r"
  shows "m (STUB stub (b + e + 15)) = 0x83 \<and> m (STUB stub (b + e + 16)) = 0xC4 \<and>
     m (STUB stub (b + e + 17)) =
       of_nat (4 * (1 +
         (if CONFIG_BOI_HANDLER_SUPPORTED cfg \<and> boiRtn r \<noteq> 0 \<and> boiParamRequired r \<noteq> 0
          then 1 else 0) +
         (if CONFIG_EOI_HANDLER_SUPPORTED cfg \<and> eoiRtn r \<noteq> 0 \<and> eoiParamRequired r \<noteq> 0
          then 1 else 0)))"
proof (cases rule: boi_size_cases[of cfg r stub])
  case b_none: none
  show ?thesis
  proof (cases rule: eoi_size_cases[of cfg r stub])
    case e_none: none
    show ?thesis
      using assms(1) b_none(3) e_none(3) unfolding synthesize_def assms(2,3) b_none(1) e_none(1)
      by (simp add: synth_rw b_none(2) e_none(2))
  next
    case e_call: call
    show ?thesis
      using assms(1) b_none(3) e_call(3) unfolding synthesize_def assms(2,3) b_none(1) e_call(1)
      by (simp add: synth_rw b_none(2) e_call(2))
  next
    case e_push_call: push_call
    show ?thesis
      using assms(1) b_none(3) e_push_call(3)
      unfolding synthesize_def assms(2,3) b_none(1) e_push_call(1)
      by (simp add: synth_rw b_none(2) e_push_call(2))
  qed
next
  case b_call: call
  show ?thesis
  proof (cases rule: eoi_size_cases[of cfg r stub])
    case e_none: none
    show ?thesis
      using assms(1) b_call(3) e_none(3) unfolding synthesize_def assms(2,3) b_call(1) e_none(1)
      by (simp add: synth_rw b_call(2) e_none(2))
  next
    case e_call: call
    show ?thesis
      using assms(1) b_call(3) e_call(3) unfolding synthesize_def assms(2,3) b_call(1) e_call(1)
      by (simp add: synth_rw b_call(2) e_call(2))
  next
    case e_push_call: push_call
    show ?thesis
      using assms(1) b_call(3) e_push_call(3)
      unfolding synthesize_def assms(2,3) b_call(1) e_push_call(1)
      by (simp add: synth_rw b_call(2) e_push_call(2))
  qed
next
  case b_push_call: push_call
  show ?thesis
  proof (cases rule: eoi_size_cases[of cfg r stub])
    case e_none: none
    show ?thesis
      using assms(1) b_push_call(3) e_none(3)
      unfolding synthesize_def assms(2,3) b_push_call(1) e_none(1)
      by (simp add: synth_rw b_push_call(2) e_none(2))
  next
    case e_call: call
    show ?thesis
      using assms(1) b_push_call(3) e_call(3)
      unfolding synthesize_def assms(2,3) b_push_call(1) e_call(1)
      by (simp add: synth_rw b_push_call(2) e_call(2))
  next
    case e_push_call: push_call
    show ?thesis
      using assms(1) b_push_call(3) e_push_call(3)
      unfolding synthesize_def assms(2,3) b_push_call(1) e_push_call(1)
      by (simp add: synth_rw b_push_call(2) e_push_call(2))
  qed
qed

lemma synth_plain:
  assumes "\<not> CONFIG_BOI_HANDLER_SUPPORTED cfg" "\<not> CONFIG_EOI_HANDLER_SUPPORTED cfg"
  shows "snd (snd (synthesize cfg r R P stub m0)) =
     write_bytes stub
       ([0xE8] @ le32 (IntEnt cfg - STUB stub 5) @
        [0x68] @ le32 P @
        [0xE8] @ le32 (R - STUB stub 15) @
        [0x83, 0xC4, 0x04] @
        [0xE9] @ le32 (IntExit cfg - STUB stub 23)) m0"
  using assms unfolding synthesize_def
  by (simp add: emit_entry_def emit_boi_def emit_isr_def emit_eoi_def emit_cleanup_def
      emit_exit_def Let_def IA32_CALL_OPCODE_def IA32_PUSH_OPCODE_def IA32_JMP_OPCODE_def
      IA32_ADD_OPCODE_def wb_init wb_byte wb_word length_le32)

subsection \<open>Relative displacements\<close>

text \<open>
  Claim C1. For every stub that \<^verbatim>\<open>irq_connect\<close> synthesizes, whatever the BOI and
  EOI support, the routine pointers and the needs-parameter flags: the four bytes after
  each emitted call or jmp opcode hold the address of the target (\<^verbatim>\<open>_IntEnt\<close>,
  the BOI routine, the handler, the EOI routine, \<^verbatim>\<open>_IntExit\<close>) minus the address
  of the byte that follows the four bytes, so that this address plus the operand is the
  target. The offsets are those of the header comment of the source, with \<open>b\<close> and
  \<open>e\<close> the sizes of the BOI and EOI blocks.
\<close>

theorem irq_connect_displacements:
  assumes "SysIntVecAlloc irq priority s = (r, s1)"
    and "\<not> (DEBUG cfg \<and> vector r = - 1)"
    and "m = mem (snd (irq_connect cfg SysIntVecAlloc irq priority routine parameter stub s))"
    and "b = boi_size cfg r" and "e = eoi_size cfg r"
  shows "m (STUB stub 0) = IA32_CALL_OPCODE \<and> encodes_target m stub 1 (IntEnt cfg) \<and>
     (b \<noteq> 0 \<longrightarrow> m (STUB stub b) = IA32_CALL_OPCODE \<and>
         encodes_target m stub (b + 1) (boiRtn r)) \<and>
     m (STUB stub (b + 10)) = IA32_CALL_OPCODE \<and>
     encodes_target m stub (b + 11) routine \<and>
     (e \<noteq> 0 \<longrightarrow> m (STUB stub (b + e + 10)) = IA32_CALL_OPCODE \<and>
         encodes_target m stub (b + e + 11) (eoiRtn r)) \<and>
     m (STUB stub (b + e + 18)) = IA32_JMP_OPCODE \<and>
     encodes_target m stub (b + e + 19) (IntExit cfg)"
proof -
  have "m = snd (snd (synthesize cfg r routine parameter stub (mem s1)))"
    unfolding assms(3) irq_connect_result[where SysIntVecAlloc=SysIntVecAlloc and irq=irq and priority=priority
        and s=s, OF assms(1,2)] by simp
  then show ?thesis using assms(4,5) by (rule synth_displacements)
qed

theorem irq_connect_displacements_witness:
  "\<exists>m. m = mem (snd (irq_connect
       \<lparr>DEBUG = True, CONFIG_BOI_HANDLER_SUPPORTED = True,
       CONFIG_EOI_HANDLER_SUPPORTED = True, CONFIG_IDT_NUM_VECTORS = 256,
       IntEnt = 0x100000, IntExit = 0x100400, idt_base_address = 0x8000\<rparr>
       (\<lambda>irq priority s. (\<lparr>vector = 40, boiRtn = 0x5000, eoiRtn = 0x6000, boiRtnParm = 0x11,
       eoiRtnParm = 0x22, boiParamRequired = 1, eoiParamRequired = 0\<rparr>, s))
       3 2 0x7000 0x33 0x3000
       \<lparr>mem = (\<lambda>a. 0), idt = Map.empty, VectorsAllocated = []\<rparr>)) \<and>
     m (STUB 0x3000 0) = IA32_CALL_OPCODE \<and> encodes_target m 0x3000 1 0x100000 \<and>
     m (STUB 0x3000 10) = IA32_CALL_OPCODE \<and> encodes_target m 0x3000 11 0x5000 \<and>
     m (STUB 0x3000 20) = IA32_CALL_OPCODE \<and> encodes_target m 0x3000 21 0x7000 \<and>
     m (STUB 0x3000 25) = IA32_CALL_OPCODE \<and> encodes_target m 0x3000 26 0x6000 \<and>
     m (STUB 0x3000 33) = IA32_JMP_OPCODE \<and> encodes_target m 0x3000 34 0x100400"
proof -
  let ?C = "\<lparr>DEBUG = True, CONFIG_BOI_HANDLER_SUPPORTED = True,
       CONFIG_EOI_HANDLER_SUPPORTED = True, CONFIG_IDT_NUM_VECTORS = 256,
       IntEnt = 0x100000, IntExit = 0x100400, idt_base_address = 0x8000\<rparr>"
  let ?R = "\<lparr>vector = 40, boiRtn = 0x5000, eoiRtn = 0x6000, boiRtnParm = 0x11,
       eoiRtnParm = 0x22, boiParamRequired = 1, eoiParamRequired = 0\<rparr>"
  let ?SYS = "\<lambda>(irq :: u32) (priority :: u32) (s :: kstate). (?R, s)"
  let ?S = "\<lparr>mem = (\<lambda>a. 0), idt = Map.empty, VectorsAllocated = []\<rparr>"
  have a: "?SYS 3 2 ?S = (?R, ?S)" by simp
  have b: "\<not> (DEBUG ?C \<and> vector ?R = - 1)" by simp
  note t = irq_connect_displacements[where SysIntVecAlloc="?SYS" and irq=3 and priority=2
      and s="?S" and cfg="?C" and routine="0x7000" and parameter="0x33" and stub="0x3000",
      OF a b refl refl refl]
  have sz: "boi_size ?C ?R = 10" "eoi_size ?C ?R = 5"
    by (simp_all add: boi_size_def eoi_size_def)
  from t show ?thesis unfolding sz by simp
qed

subsection \<open>The stack cleanup\<close>

text \<open>
  Claim C3. The immediate byte of the \<^verbatim>\<open>addl\<close> that pops the parameters is 4 times
  (1, plus 1 if the BOI block was emitted with a push of its parameter, plus 1 if the EOI
  block was emitted with a push of its parameter). A callout that is not compiled in, whose
  routine pointer is null or that takes no parameter adds nothing.
\<close>

theorem irq_connect_cleanup_immediate:
  assumes "SysIntVecAlloc irq priority s = (r, s1)"
    and "\<not> (DEBUG cfg \<and> vector r = - 1)"
    and "m = mem (snd (irq_connect cfg SysIntVecAlloc irq priority routine parameter stub s))"
    and "b = boi_size cfg r" and "e = eoi_size cfg r"
  shows "m (STUB stub (b + e + 15)) = 0x83 \<and> m (STUB stub (b + e + 16)) = 0xC4 \<and>
     m (STUB stub (b + e + 17)) =
       of_nat (4 * (1 +
         (if CONFIG_BOI_HANDLER_SUPPORTED cfg \<and> boiRtn r \<noteq> 0 \<and> boiParamRequired r \<noteq> 0
          then 1 else 0) +
         (if CONFIG_EOI_HANDLER_SUPPORTED cfg \<and> eoiRtn r \<noteq> 0 \<and> eoiParamRequired r \<noteq> 0
          then 1 else 0)))"
proof -
  have "m = snd (snd (synthesize cfg r routine parameter stub (mem s1)))"
    unfolding assms(3) irq_connect_result[where SysIntVecAlloc=SysIntVecAlloc and irq=irq and priority=priority
        and s=s, OF assms(1,2)] by simp
  then show ?thesis using assms(4,5) by (rule synth_cleanup)
qed

theorem irq_connect_cleanup_immediate_witness:
  "\<exists>m. m = mem (snd (irq_connect
       \<lparr>DEBUG = True, CONFIG_BOI_HANDLER_SUPPORTED = True,
       CONFIG_EOI_HANDLER_SUPPORTED = True, CONFIG_IDT_NUM_VECTORS = 256,
       IntEnt = 0x100000, IntExit = 0x100400, idt_base_address = 0x8000\<rparr>
       (\<lambda>irq priority s. (\<lparr>vector = 40, boiRtn = 0x5000, eoiRtn = 0x6000, boiRtnParm = 0x11,
       eoiRtnParm = 0x22, boiParamRequired = 1, eoiParamRequired = 0\<rparr>, s))
       3 2 0x7000 0x33 0x3000
       \<lparr>mem = (\<lambda>a. 0), idt = Map.empty, VectorsAllocated = []\<rparr>)) \<and>
     m (STUB 0x3000 30) = 0x83 \<and> m (STUB 0x3000 31) = 0xC4 \<and> m (STUB 0x3000 32) = 8"
proof -
  let ?C = "\<lparr>DEBUG = True, CONFIG_BOI_HANDLER_SUPPORTED = True,
       CONFIG_EOI_HANDLER_SUPPORTED = True, CONFIG_IDT_NUM_VECTORS = 256,
       IntEnt = 0x100000, IntExit = 0x100400, idt_base_address = 0x8000\<rparr>"
  let ?R = "\<lparr>vector = 40, boiRtn = 0x5000, eoiRtn = 0x6000, boiRtnParm = 0x11,
       eoiRtnParm = 0x22, boiParamRequired = 1, eoiParamRequired = 0\<rparr>"
  let ?SYS = "\<lambda>(irq :: u32) (priority :: u32) (s :: kstate). (?R, s)"
  let ?S = "\<lparr>mem = (\<lambda>a. 0), idt = Map.empty, VectorsAllocated = []\<rparr>"
  have a: "?SYS 3 2 ?S = (?R, ?S)" by simp
  have b: "\<not> (DEBUG ?C \<and> vector ?R = - 1)" by simp
  note t = irq_connect_cleanup_immediate[where SysIntVecAlloc="?SYS" and irq=3 and priority=2
      and s="?S" and cfg="?C" and routine="0x7000" and parameter="0x33" and stub="0x3000",
      OF a b refl refl refl]
  have sz: "boi_size ?C ?R = 10" "eoi_size ?C ?R = 5"
    by (simp_all add: boi_size_def eoi_size_def)
  from t show ?thesis unfolding sz by simp
qed

subsection \<open>The stub without BOI and EOI support\<close>

text \<open>
  Claim C2. When neither BOI nor EOI support is compiled in, \<^verbatim>\<open>irq_connect\<close> with
  handler \<open>R\<close> and parameter \<open>P\<close> stores exactly 23 bytes from the first byte of the
  stub buffer on: \<^verbatim>\<open>call _IntEnt\<close> at offset 0, \<^verbatim>\<open>push P\<close> at offset 5,
  \<^verbatim>\<open>call R\<close> at offset 10, \<^verbatim>\<open>add esp, 4\<close> (\<^verbatim>\<open>0x83 0xC4 0x04\<close>) at offset 15
  and \<^verbatim>\<open>jmp _IntExit\<close> at offset 18; the rest of memory is unchanged. It writes one
  gate descriptor, at \<^verbatim>\<open>_idt_base_address + (vector << 3)\<close>, which for vector 40 is
  \<^verbatim>\<open>_idt_base_address + 320\<close>, with the address of the stub buffer as handler and
  privilege level 0.
\<close>

theorem irq_connect_plain_stub:
  assumes "\<not> CONFIG_BOI_HANDLER_SUPPORTED cfg" and "\<not> CONFIG_EOI_HANDLER_SUPPORTED cfg"
    and "SysIntVecAlloc irq priority s = (r, s1)"
    and "\<not> (DEBUG cfg \<and> vector r = - 1)"
  shows "irq_connect cfg SysIntVecAlloc irq priority R P stub s =
           (vector r,
            s1\<lparr>mem := write_bytes stub
                 ([0xE8] @ le32 (IntEnt cfg - STUB stub 5) @
                  [0x68] @ le32 P @
                  [0xE8] @ le32 (R - STUB stub 15) @
                  [0x83, 0xC4, 0x04] @
                  [0xE9] @ le32 (IntExit cfg - STUB stub 23)) (mem s1),
               idt := (idt s1)(idt_base_address cfg + push_bit 3 (vector r) \<mapsto>
                         \<lparr>gate_handler = stub, gate_dpl = 0\<rparr>)\<rparr>) \<and>
         length ([0xE8] @ le32 (IntEnt cfg - STUB stub 5) @
                  [0x68] @ le32 P @
                  [0xE8] @ le32 (R - STUB stub 15) @
                  [0x83, 0xC4, 0x04] @
                  [0xE9] @ le32 (IntExit cfg - STUB stub 23)) = 23 \<and>
         (vector r = 40 \<longrightarrow>
            idt_base_address cfg + push_bit 3 (vector r) = idt_base_address cfg + 320)"
  unfolding irq_connect_result[where SysIntVecAlloc=SysIntVecAlloc and irq=irq and priority=priority
      and s=s, OF assms(3,4)] synth_plain[OF assms(1,2)]
  by (simp add: length_le32)

theorem irq_connect_plain_stub_witness:
  "irq_connect
       \<lparr>DEBUG = True, CONFIG_BOI_HANDLER_SUPPORTED = False,
       CONFIG_EOI_HANDLER_SUPPORTED = False, CONFIG_IDT_NUM_VECTORS = 256,
       IntEnt = 0x100000, IntExit = 0x100400, idt_base_address = 0x8000\<rparr>
       (\<lambda>irq priority s. (\<lparr>vector = 40, boiRtn = 0x5000, eoiRtn = 0x6000, boiRtnParm = 0x11,
       eoiRtnParm = 0x22, boiParamRequired = 1, eoiParamRequired = 0\<rparr>, s))
       3 2 0x7000 0x33 0x3000
       \<lparr>mem = (\<lambda>a. 0), idt = Map.empty, VectorsAllocated = []\<rparr> =
     (40,
      \<lparr>mem = write_bytes 0x3000
           ([0xE8] @ le32 (0x100000 - STUB 0x3000 5) @
            [0x68] @ le32 0x33 @
            [0xE8] @ le32 (0x7000 - STUB 0x3000 15) @
            [0x83, 0xC4, 0x04] @
            [0xE9] @ le32 (0x100400 - STUB 0x3000 23)) (\<lambda>a. 0),
        idt = [0x8000 + 320 \<mapsto> \<lparr>gate_handler = 0x3000, gate_dpl = 0\<rparr>],
        VectorsAllocated = []\<rparr>)"
proof -
  let ?C = "\<lparr>DEBUG = True, CONFIG_BOI_HANDLER_SUPPORTED = False,
       CONFIG_EOI_HANDLER_SUPPORTED = False, CONFIG_IDT_NUM_VECTORS = 256,
       IntEnt = 0x100000, IntExit = 0x100400, idt_base_address = 0x8000\<rparr>"
  let ?R = "\<lparr>vector = 40, boiRtn = 0x5000, eoiRtn = 0x6000, boiRtnParm = 0x11,
       eoiRtnParm = 0x22, boiParamRequired = 1, eoiParamRequired = 0\<rparr>"
  let ?SYS = "\<lambda>(irq :: u32) (priority :: u32) (s :: kstate). (?R, s)"
  let ?S = "\<lparr>mem = (\<lambda>a. 0), idt = Map.empty, VectorsAllocated = []\<rparr>"
  have a: "?SYS 3 2 ?S = (?R, ?S)" by simp
  have b: "\<not> (DEBUG ?C \<and> vector ?R = - 1)" by simp
  have c: "\<not> CONFIG_BOI_HANDLER_SUPPORTED ?C" and d: "\<not> CONFIG_EOI_HANDLER_SUPPORTED ?C"
    by simp_all
  note t = irq_connect_plain_stub[where SysIntVecAlloc="?SYS" and irq=3 and priority=2
      and s="?S" and cfg="?C" and R="0x7000" and P="0x33" and stub="0x3000",
      OF c d a b]
  from t show ?thesis by simp
qed

subsection \<open>Failure of the board support routine\<close>

text \<open>
  Claim C7. In a debug build, when \<^verbatim>\<open>_SysIntVecAlloc\<close> returns -1,
  \<^verbatim>\<open>irq_connect\<close> returns -1 and the state is the one that
  \<^verbatim>\<open>_SysIntVecAlloc\<close> left: no byte of the stub buffer and no entry of the
  descriptor table is written.
\<close>

theorem irq_connect_fails_atomically:
  assumes "DEBUG cfg"
    and "vector (fst (SysIntVecAlloc irq priority s)) = - 1"
  shows "irq_connect cfg SysIntVecAlloc irq priority routine parameter pIntStubMem s =
           (- 1, snd (SysIntVecAlloc irq priority s))"
  using assms by (cases "SysIntVecAlloc irq priority s") (simp add: irq_connect_def)

theorem irq_connect_fails_atomically_witness:
  "irq_connect
       \<lparr>DEBUG = True, CONFIG_BOI_HANDLER_SUPPORTED = True,
       CONFIG_EOI_HANDLER_SUPPORTED = True, CONFIG_IDT_NUM_VECTORS = 256,
       IntEnt = 0x100000, IntExit = 0x100400, idt_base_address = 0x8000\<rparr>
       (\<lambda>irq priority s. (\<lparr>vector = - 1, boiRtn = 0x5000, eoiRtn = 0x6000, boiRtnParm = 0x11,
       eoiRtnParm = 0x22, boiParamRequired = 1, eoiParamRequired = 0\<rparr>, s))
       3 2 0x7000 0x33 0x3000
       \<lparr>mem = (\<lambda>a. 0), idt = Map.empty, VectorsAllocated = []\<rparr> =
     (- 1, \<lparr>mem = (\<lambda>a. 0), idt = Map.empty, VectorsAllocated = []\<rparr>)"
  by (rule irq_connect_fails_atomically[THEN trans]) simp_all

end
